theory Spec2Isabelle
  imports Main "HOL-Library.Word" "HOL-Library.Multiset"
begin

unbundle bit_operations_syntax

section \<open>Go library functions used by the sources\<close>

text \<open>
  A Go \<open>string\<close> is a sequence of bytes: \<^typ>\<open>string\<close>. A \<open>bytes.Buffer\<close> is the
  text written so far; \<open>WriteString\<close> appends to it and \<open>out.String()\<close> reads it.
\<close>

definition WriteString :: "string \<Rightarrow> string \<Rightarrow> string" where
  "WriteString out s = out @ s"

text \<open>\<open>strings.Join(elems, sep)\<close>: the elements with \<open>sep\<close> between neighbours.\<close>

fun Join :: "string list \<Rightarrow> string \<Rightarrow> string" where
  "Join [] sep = []"
| "Join [x] sep = x"
| "Join (x # y # ys) sep = x @ sep @ Join (y # ys) sep"

section \<open>Package token\<close>

type_synonym TokenType = string

datatype Token = Token (Token_Type: TokenType) (Literal: string)

section \<open>Package ast\<close>

text \<open>
  The two interfaces \<open>Expression\<close> and \<open>Statement\<close> are closed sums of the node structs
  that implement them. A field the source compares with \<open>nil\<close> before it is used
  (\<open>LetStatement.Value\<close>, \<open>ReturnStatement.ReturnValue\<close>,
  \<open>ExpressionStatement.Expression\<close>, \<open>IfExpression.Alternative\<close>) is an option;
  every other field is dereferenced by the source without a test and is a node here.

  \<open>HashLiteral.Pairs\<close> is a Go map whose keys are interface values holding pointers, so
  two entries may carry structurally equal keys. It is kept as the list of its entries;
  the position of an entry in that list has no meaning for the program.
\<close>

text \<open>
  Go's \<open>int64\<close> and \<open>uint64\<close> are 64-bit words; \<^const>\<open>sint\<close> reads the signed value
  of the first, \<^const>\<open>uint\<close> the unsigned value of the second.
\<close>

type_synonym int64 = "64 word"
type_synonym uint64 = "64 word"

datatype Identifier = Identifier (ident_Token: Token) (ident_Value: string)

datatype Expression =
    Expr_Identifier Identifier
  | IntegerLiteral Token int64
  | PrefixExpression Token string Expression
  | InfixExpression Token Expression string Expression
  | Boolean_ast Token bool
  | IfExpression Token Expression BlockStatement "BlockStatement option"
  | FunctionLiteral Token "Identifier list" BlockStatement
  | CallExpression Token Expression "Expression list"
  | StringLiteral Token string
  | ArrayLiteral Token "Expression list"
  | IndexExpression Token Expression Expression
  | HashLiteral Token "(Expression \<times> Expression) list"
and Statement =
    LetStatement Token Identifier "Expression option"
  | ReturnStatement Token "Expression option"
  | ExpressionStatement Token "Expression option"
  | Stmt_Block BlockStatement
and BlockStatement =
    BlockStatement Token "Statement list"

datatype Program = Program (Statements: "Statement list")

subsection \<open>Ranging over a Go map\<close>

text \<open>
  \<open>for k, v := range m\<close> visits every entry of \<open>m\<close> once, in an order Go leaves
  unspecified and that may differ from one loop to the next. \<open>pick xs x rest\<close> takes
  one entry out of those not yet visited; \<open>range_map xs ys\<close> holds when \<open>ys\<close> is an
  order in which a loop may visit the entries \<open>xs\<close>.
\<close>

inductive pick :: "'a list \<Rightarrow> 'a \<Rightarrow> 'a list \<Rightarrow> bool" where
  pick_here: "pick (x # xs) x xs"
| pick_later: "pick xs y rest \<Longrightarrow> pick (x # xs) y (x # rest)"

inductive range_map :: "'a list \<Rightarrow> 'a list \<Rightarrow> bool" where
  range_done: "range_map [] []"
| range_next: "pick xs x rest \<Longrightarrow> range_map rest ys \<Longrightarrow> range_map xs (x # ys)"

code_pred pick .
code_pred range_map .

subsection \<open>The String methods\<close>

text \<open>
  Each \<open>String\<close> method is a relation between a node and a text it may return: it is a
  function of the node but for the order in which \<open>HashLiteral.String\<close> ranges over its
  map. \<open>Strings\<close> is the loop that collects the texts of a slice of expressions,
  \<open>Strings_pairs\<close> the loop over the entries of a hash literal in the order they are
  visited, and \<open>String_stmts out ss out'\<close> the loop that writes each statement to the
  buffer.
\<close>

definition Identifier_String :: "Identifier \<Rightarrow> string" where
  "Identifier_String i = ident_Value i"

definition TokenLiteral :: "Token \<Rightarrow> string" where
  "TokenLiteral t = Literal t"

inductive
  String_Expression :: "Expression \<Rightarrow> string \<Rightarrow> bool" and
  String_Statement :: "Statement \<Rightarrow> string \<Rightarrow> bool" and
  String_BlockStatement :: "BlockStatement \<Rightarrow> string \<Rightarrow> bool" and
  Strings :: "Expression list \<Rightarrow> string list \<Rightarrow> bool" and
  Strings_pairs :: "(Expression \<times> Expression) list \<Rightarrow> string list \<Rightarrow> bool" and
  String_stmts :: "string \<Rightarrow> Statement list \<Rightarrow> string \<Rightarrow> bool"
where
  String_Identifier:
    "String_Expression (Expr_Identifier i) (Identifier_String i)"
| String_IntegerLiteral:
    "String_Expression (IntegerLiteral t v) (Literal t)"
| String_PrefixExpression:
    "String_Expression right r \<Longrightarrow>
     String_Expression (PrefixExpression t operator right)
       (WriteString (WriteString (WriteString (WriteString [] ''('') operator) r) '')'')"
| String_InfixExpression:
    "String_Expression left l \<Longrightarrow> String_Expression right r \<Longrightarrow>
     String_Expression (InfixExpression t left operator right)
       (WriteString (WriteString (WriteString (WriteString (WriteString [] ''('') l)
          ('' '' @ operator @ '' '')) r) '')'')"
| String_Boolean:
    "String_Expression (Boolean_ast t v) (Literal t)"
| String_IfExpression:
    "String_Expression condition c \<Longrightarrow> String_BlockStatement consequence cs \<Longrightarrow>
     String_Expression (IfExpression t condition consequence None)
       (WriteString (WriteString (WriteString (WriteString [] ''if'') c) '' '') cs)"
| String_IfExpression_else:
    "String_Expression condition c \<Longrightarrow> String_BlockStatement consequence cs \<Longrightarrow>
     String_BlockStatement alternative al \<Longrightarrow>
     String_Expression (IfExpression t condition consequence (Some alternative))
       (WriteString (WriteString
         (WriteString (WriteString (WriteString (WriteString [] ''if'') c) '' '') cs)
         ''else'') al)"
| String_FunctionLiteral:
    "String_BlockStatement body b \<Longrightarrow>
     String_Expression (FunctionLiteral t parameters body)
       (WriteString (WriteString (WriteString (WriteString (WriteString []
          (TokenLiteral t)) ''('') (Join (map Identifier_String parameters) '', ''))
          '') '') b)"
| String_CallExpression:
    "Strings arguments args \<Longrightarrow> String_Expression function f \<Longrightarrow>
     String_Expression (CallExpression t function arguments)
       (WriteString (WriteString (WriteString (WriteString [] f) ''('')
          (Join args '', '')) '')'')"
| String_StringLiteral:
    "String_Expression (StringLiteral t v) (Literal t)"
| String_ArrayLiteral:
    "Strings elements els \<Longrightarrow>
     String_Expression (ArrayLiteral t elements)
       (WriteString (WriteString (WriteString [] ''['') (Join els '', '')) '']'')"
| String_IndexExpression:
    "String_Expression left l \<Longrightarrow> String_Expression index i \<Longrightarrow>
     String_Expression (IndexExpression t left index)
       (WriteString (WriteString (WriteString (WriteString (WriteString [] ''('') l)
          ''['') i) ''])'')"
| String_HashLiteral:
    "range_map pairs visited \<Longrightarrow> Strings_pairs visited ps \<Longrightarrow>
     String_Expression (HashLiteral t pairs)
       (WriteString (WriteString (WriteString [] ''{'') (Join ps '', '')) ''}'')"
| String_LetStatement_nil:
    "String_Statement (LetStatement t name None)
       (WriteString (WriteString (WriteString (WriteString []
          (TokenLiteral t @ '' '')) (Identifier_String name)) '' = '') '';'')"
| String_LetStatement:
    "String_Expression v vs \<Longrightarrow>
     String_Statement (LetStatement t name (Some v))
       (WriteString (WriteString (WriteString (WriteString (WriteString []
          (TokenLiteral t @ '' '')) (Identifier_String name)) '' = '') vs) '';'')"
| String_ReturnStatement_nil:
    "String_Statement (ReturnStatement t None)
       (WriteString (WriteString [] (TokenLiteral t @ '' '')) '';'')"
| String_ReturnStatement:
    "String_Expression v vs \<Longrightarrow>
     String_Statement (ReturnStatement t (Some v))
       (WriteString (WriteString (WriteString [] (TokenLiteral t @ '' '')) vs) '';'')"
| String_ExpressionStatement_nil:
    "String_Statement (ExpressionStatement t None) []"
| String_ExpressionStatement:
    "String_Expression e es \<Longrightarrow> String_Statement (ExpressionStatement t (Some e)) es"
| String_Stmt_Block:
    "String_BlockStatement b bs \<Longrightarrow> String_Statement (Stmt_Block b) bs"
| String_Block:
    "String_stmts [] statements out \<Longrightarrow>
     String_BlockStatement (BlockStatement t statements) out"
| Strings_Nil:
    "Strings [] []"
| Strings_Cons:
    "String_Expression e s \<Longrightarrow> Strings es ss \<Longrightarrow> Strings (e # es) (s # ss)"
| Strings_pairs_Nil:
    "Strings_pairs [] []"
| Strings_pairs_Cons:
    "String_Expression k ks \<Longrightarrow> String_Expression v vs \<Longrightarrow> Strings_pairs kvs ss \<Longrightarrow>
     Strings_pairs ((k, v) # kvs) ((ks @ '':'' @ vs) # ss)"
| String_stmts_Nil:
    "String_stmts out [] out"
| String_stmts_Cons:
    "String_Statement s st \<Longrightarrow> String_stmts (WriteString out st) ss out' \<Longrightarrow>
     String_stmts out (s # ss) out'"

code_pred String_Expression .

definition Program_String :: "Program \<Rightarrow> string \<Rightarrow> bool" where
  "Program_String p out = String_stmts [] (Statements p) out"

section \<open>Package object\<close>

subsection \<open>More of the Go library: fmt and hash/fnv\<close>

text \<open>\<open>fmt.Sprintf("%d", v)\<close>: the decimal digits of \<open>v\<close>, after a minus sign when \<open>v\<close> is negative.\<close>

definition digit :: "nat \<Rightarrow> char" where
  "digit d = ''0123456789'' ! d"

fun decimal :: "nat \<Rightarrow> string" where
  "decimal n = (if n < 10 then [digit n] else decimal (n div 10) @ [digit (n mod 10)])"

declare decimal.simps [simp del]

definition Sprintf_d :: "int \<Rightarrow> string" where
  "Sprintf_d i = (if i < 0 then ''-'' @ decimal (nat (- i)) else decimal (nat i))"

text \<open>\<open>fmt.Sprintf("%t", b)\<close> and \<open>fmt.Sprintf("%s: %s", a, b)\<close>.\<close>

definition Sprintf_t :: "bool \<Rightarrow> string" where
  "Sprintf_t b = (if b then ''true'' else ''false'')"

definition Sprintf_s_s :: "string \<Rightarrow> string \<Rightarrow> string" where
  "Sprintf_s_s a b = a @ '': '' @ b"

text \<open>
  \<open>hash/fnv\<close>: \<open>New64a\<close> starts from the offset basis, \<open>Write\<close> folds every byte in
  (\<open>hash ^= uint64(c); hash *= prime64\<close>), \<open>Sum64\<close> reads the state. \<open>[]byte(s)\<close> are the
  bytes of a string.
\<close>

type_synonym byte = "8 word"

definition offset64 :: uint64 where
  "offset64 = 14695981039346656037"

definition prime64 :: uint64 where
  "prime64 = 1099511628211"

definition New64a :: uint64 where
  "New64a = offset64"

fun Write :: "uint64 \<Rightarrow> byte list \<Rightarrow> uint64" where
  "Write hash [] = hash"
| "Write hash (c # data) = Write ((hash XOR ucast c) * prime64) data"

definition Sum64 :: "uint64 \<Rightarrow> uint64" where
  "Sum64 s = s"

definition bytes :: "string \<Rightarrow> byte list" where
  "bytes s = map of_char s"

text \<open>
  The conversion \<open>uint64(v)\<close> of an \<open>int64\<close>: Go extends the signed value to unbounded
  precision and truncates it to 64 bits.
\<close>

definition uint64_of_int64 :: "int64 \<Rightarrow> uint64" where
  "uint64_of_int64 v = word_of_int (sint v)"

subsection \<open>Objects\<close>

type_synonym ObjectType = string

definition INTEGER_OBJ :: ObjectType where "INTEGER_OBJ = ''INTEGER''"
definition BOOLEAN_OBJ :: ObjectType where "BOOLEAN_OBJ = ''BOOLEAN''"
definition NULL_OBJ :: ObjectType where "NULL_OBJ = ''NULL''"
definition RETURN_VALUE_OBJ :: ObjectType where "RETURN_VALUE_OBJ = ''RETURN_VALUE''"
definition ERROR_OBJ :: ObjectType where "ERROR_OBJ = ''ERROR''"
definition FUNCTION_OBJ :: ObjectType where "FUNCTION_OBJ = ''FUNCTION''"
definition STRING_OBJ :: ObjectType where "STRING_OBJ = ''STRING''"
definition BUILTIN_OBJ :: ObjectType where "BUILTIN_OBJ = ''BUILTIN''"
definition ARRAY_OBJ :: ObjectType where "ARRAY_OBJ = ''ARRAY''"
definition HASH_OBJ :: ObjectType where "HASH_OBJ = ''HASH''"

record HashKey =
  key_Type :: ObjectType
  key_Value :: uint64

text \<open>
  An \<open>*Environment\<close> is a reference into the heap of environments (below); \<open>None\<close> is
  \<open>nil\<close>. A \<open>BuiltinFunction\<close> is a native Go function, opaque to this package. The Go map
  \<open>Hash.Pairs\<close> is kept as the list of its entries, whose order has no meaning for the
  program; looking a key up in it is \<^const>\<open>map_of\<close>. A field of type \<open>Object\<close> and
  the parameters and body of a function hold a value: the source calls their methods
  without a \<open>nil\<close> test.
\<close>

type_synonym ref = nat

typedecl BuiltinFunction

datatype object =
    Integer int64
  | Boolean bool
  | Null
  | ReturnValue object
  | Error string
  | Function "Identifier list" BlockStatement "ref option"
  | String string
  | Builtin BuiltinFunction
  | Array "object list"
  | Hash "(HashKey \<times> HashPair) list"
and HashPair =
    HashPair (Key: object) (Value: object)

fun Type :: "object \<Rightarrow> ObjectType" where
  "Type (Integer v) = INTEGER_OBJ"
| "Type (Boolean v) = BOOLEAN_OBJ"
| "Type Null = NULL_OBJ"
| "Type (ReturnValue v) = RETURN_VALUE_OBJ"
| "Type (Error m) = ERROR_OBJ"
| "Type (Function ps b e) = FUNCTION_OBJ"
| "Type (String v) = STRING_OBJ"
| "Type (Builtin f) = BUILTIN_OBJ"
| "Type (Array es) = ARRAY_OBJ"
| "Type (Hash ps) = HASH_OBJ"

text \<open>
  \<open>Inspect\<close> is a relation between an object and a text it may return, for the same
  reason as \<open>String\<close>: \<open>Hash.Inspect\<close> ranges over a Go map. \<open>Inspects\<close> is the loop over
  the elements of an array, \<open>Inspects_pairs\<close> the loop over the entries of a hash in the
  order they are visited.
\<close>

inductive
  Inspect :: "object \<Rightarrow> string \<Rightarrow> bool" and
  Inspects :: "object list \<Rightarrow> string list \<Rightarrow> bool" and
  Inspects_pairs :: "(HashKey \<times> HashPair) list \<Rightarrow> string list \<Rightarrow> bool"
where
  Inspect_Integer:
    "Inspect (Integer v) (Sprintf_d (sint v))"
| Inspect_Boolean:
    "Inspect (Boolean v) (Sprintf_t v)"
| Inspect_Null:
    "Inspect Null ''null''"
| Inspect_ReturnValue:
    "Inspect v s \<Longrightarrow> Inspect (ReturnValue v) s"
| Inspect_Error:
    "Inspect (Error message) (''ERROR: '' @ message)"
| Inspect_Function:
    "String_BlockStatement body b \<Longrightarrow>
     Inspect (Function parameters body env)
       (WriteString (WriteString (WriteString (WriteString (WriteString (WriteString []
          ''fn'') ''('') (Join (map Identifier_String parameters) '', ''))
          ('') {'' @ [CHR 0x0A])) b) ([CHR 0x0A] @ ''}''))"
| Inspect_String:
    "Inspect (String v) v"
| Inspect_Builtin:
    "Inspect (Builtin f) ''builtin function''"
| Inspect_Array:
    "Inspects elements els \<Longrightarrow>
     Inspect (Array elements)
       (WriteString (WriteString (WriteString [] ''['') (Join els '', '')) '']'')"
| Inspect_Hash:
    "range_map pairs visited \<Longrightarrow> Inspects_pairs visited ps \<Longrightarrow>
     Inspect (Hash pairs)
       (WriteString (WriteString (WriteString [] ''{'') (Join ps '', '')) ''}'')"
| Inspects_Nil:
    "Inspects [] []"
| Inspects_Cons:
    "Inspect e s \<Longrightarrow> Inspects es ss \<Longrightarrow> Inspects (e # es) (s # ss)"
| Inspects_pairs_Nil:
    "Inspects_pairs [] []"
| Inspects_pairs_Cons:
    "Inspect (Key pair) ks \<Longrightarrow> Inspect (Value pair) vs \<Longrightarrow> Inspects_pairs kvs ss \<Longrightarrow>
     Inspects_pairs ((k, pair) # kvs) (Sprintf_s_s ks vs # ss)"

code_pred Inspect .

subsection \<open>Hash keys\<close>

text \<open>
  The three \<open>HashKey\<close> methods, and the method as the interface \<open>Hashable\<close> sees it: only
  \<open>*Boolean\<close>, \<open>*Integer\<close> and \<open>*String\<close> have it.
\<close>

definition Boolean_HashKey :: "bool \<Rightarrow> HashKey" where
  "Boolean_HashKey v =
     (let value = (if v then 1 else 0)
      in \<lparr>key_Type = Type (Boolean v), key_Value = value\<rparr>)"

definition Integer_HashKey :: "int64 \<Rightarrow> HashKey" where
  "Integer_HashKey v = \<lparr>key_Type = Type (Integer v), key_Value = uint64_of_int64 v\<rparr>"

definition String_HashKey :: "string \<Rightarrow> HashKey" where
  "String_HashKey v =
     (let h = New64a; h = Write h (bytes v)
      in \<lparr>key_Type = Type (String v), key_Value = Sum64 h\<rparr>)"

fun Hashable :: "object \<Rightarrow> bool" where
  "Hashable (Boolean v) = True"
| "Hashable (Integer v) = True"
| "Hashable (String v) = True"
| "Hashable _ = False"

fun Hashable_HashKey :: "object \<Rightarrow> HashKey option" where
  "Hashable_HashKey (Boolean v) = Some (Boolean_HashKey v)"
| "Hashable_HashKey (Integer v) = Some (Integer_HashKey v)"
| "Hashable_HashKey (String v) = Some (String_HashKey v)"
| "Hashable_HashKey _ = None"

subsection \<open>Environments\<close>

text \<open>
  Environments are shared through pointers: a closure and every scope enclosed in an
  environment hold a reference to it, and \<open>Set\<close> updates it in place. The heap is the
  list of all environments allocated so far; a reference is an index into it, and an
  allocation appends. Go has no dangling pointer: an operation on a reference outside
  the heap has no result (\<open>None\<close>).
\<close>

record Environment =
  store :: "string \<rightharpoonup> object"
  outer :: "ref option"

type_synonym heap = "Environment list"

definition NewEnvironment :: "heap \<Rightarrow> heap \<times> ref" where
  "NewEnvironment h =
     (let s = Map.empty in (h @ [\<lparr>store = s, outer = None\<rparr>], length h))"

definition NewEnclosedEnvironment :: "heap \<Rightarrow> ref option \<Rightarrow> heap \<times> ref" where
  "NewEnclosedEnvironment h outer' =
     (let (h1, env) = NewEnvironment h;
          h2 = h1[env := (h1 ! env)\<lparr>outer := outer'\<rparr>]
      in (h2, env))"

text \<open>
  \<open>Get\<close> returns \<open>(obj, ok)\<close>: \<open>Some obj\<close> when \<open>ok\<close>, \<open>None\<close> when not. It follows
  the \<open>outer\<close> pointers, so the outer option is the call not returning.
\<close>

partial_function (option) Get :: "heap \<Rightarrow> ref \<Rightarrow> string \<Rightarrow> object option option" where
  "Get h e name =
     (if e < length h then
        (case store (h ! e) name of
           Some obj \<Rightarrow> Some (Some obj)
         | None \<Rightarrow>
             (case outer (h ! e) of
                Some out \<Rightarrow> Get h out name
              | None \<Rightarrow> Some None))
      else None)"

definition Set :: "heap \<Rightarrow> ref \<Rightarrow> string \<Rightarrow> object \<Rightarrow> (heap \<times> object) option" where
  "Set h e name val =
     (if e < length h
      then Some (h[e := (h ! e)\<lparr>store := (store (h ! e))(name \<mapsto> val)\<rparr>], val)
      else None)"

text \<open>
  Sequences of calls of the package: each call is made on the heap the calls before it
  left. A call that hands over a reference outside the heap is no call of a Go program.
\<close>

datatype call =
    Call_Get ref string
  | Call_Set ref string object
  | Call_NewEnclosedEnvironment "ref option"
  | Call_NewEnvironment

fun valid_ref :: "heap \<Rightarrow> ref option \<Rightarrow> bool" where
  "valid_ref h None = True"
| "valid_ref h (Some r) = (r < length h)"

fun do_call :: "heap \<Rightarrow> call \<Rightarrow> heap option" where
  "do_call h (Call_Get e name) = (case Get h e name of None \<Rightarrow> None | Some r \<Rightarrow> Some h)"
| "do_call h (Call_Set e name val) =
     (case Set h e name val of None \<Rightarrow> None | Some (h', r) \<Rightarrow> Some h')"
| "do_call h (Call_NewEnclosedEnvironment out) =
     (if valid_ref h out then Some (fst (NewEnclosedEnvironment h out)) else None)"
| "do_call h Call_NewEnvironment = Some (fst (NewEnvironment h))"

fun do_calls :: "heap \<Rightarrow> call list \<Rightarrow> heap option" where
  "do_calls h [] = Some h"
| "do_calls h (c # cs) = (case do_call h c of None \<Rightarrow> None | Some h' \<Rightarrow> do_calls h' cs)"

text \<open>
  The environment chain of \<open>e\<close>, innermost first: \<open>e\<close>, its outer environment, and so on
  up to the environment that has none. \<open>innermost_binding\<close> is the binding of a name in
  the first environment of a chain that has one.
\<close>

inductive env_chain :: "heap \<Rightarrow> ref \<Rightarrow> ref list \<Rightarrow> bool" where
  chain_global:
    "e < length h \<Longrightarrow> outer (h ! e) = None \<Longrightarrow> env_chain h e [e]"
| chain_enclosed:
    "e < length h \<Longrightarrow> outer (h ! e) = Some out \<Longrightarrow> env_chain h out es \<Longrightarrow>
     env_chain h e (e # es)"

code_pred env_chain .

fun innermost_binding :: "heap \<Rightarrow> ref list \<Rightarrow> string \<Rightarrow> object option" where
  "innermost_binding h [] name = None"
| "innermost_binding h (e # es) name =
     (case store (h ! e) name of
        Some obj \<Rightarrow> Some obj
      | None \<Rightarrow> innermost_binding h es name)"

text \<open>
  The heaps of a program: every \<open>outer\<close> pointer was an environment of the heap when
  \<open>NewEnclosedEnvironment\<close> stored it, so it points to an earlier allocation.
\<close>

definition outer_earlier :: "heap \<Rightarrow> bool" where
  "outer_earlier h = (\<forall>e < length h. \<forall>out. outer (h ! e) = Some out \<longrightarrow> out < e)"

section \<open>Package repl\<close>

text \<open>
  The lexer, the parser and the evaluator are other packages: \<open>Start\<close> takes them as
  parameters. \<open>parse line\<close> is the program and the diagnostics of
  \<open>parser.New(lexer.New(line))\<close>; \<open>eval program env h\<close> is the result of
  \<open>evaluator.Eval(program, env)\<close> on the heap \<open>h\<close> (\<open>None\<close> for the \<open>nil\<close> object) with the
  heap it leaves, or \<open>None\<close> when the call does not return. The reader is the list of the
  lines \<open>scanner.Scan\<close> yields, the writer the text \<open>Start\<close> has written to it so far.
\<close>

type_synonym parser = "string \<Rightarrow> Program \<times> string list"
type_synonym evaluator = "Program \<Rightarrow> ref \<Rightarrow> heap \<Rightarrow> (object option \<times> heap) option"

definition PROMPT :: string where
  "PROMPT = ''>> ''"

fun printParserErrors_loop :: "string \<Rightarrow> string list \<Rightarrow> string" where
  "printParserErrors_loop out [] = out"
| "printParserErrors_loop out (msg # errors) =
     printParserErrors_loop (WriteString out ([CHR 0x09] @ msg @ [CHR 0x0A])) errors"

definition printParserErrors :: "string \<Rightarrow> string list \<Rightarrow> string" where
  "printParserErrors out errors =
     printParserErrors_loop (WriteString out (''Parser errors:'' @ [CHR 0x0A])) errors"

text \<open>
  \<open>Start_line\<close> is the body of the loop for a line that was read, after the prompt;
  \<open>Start_loop\<close> is the loop, \<open>Start\<close> the function. They are relations because the text
  of \<open>Inspect\<close> is.
\<close>

inductive Start_line ::
  "parser \<Rightarrow> evaluator \<Rightarrow> ref \<Rightarrow> string \<Rightarrow> string \<times> heap \<Rightarrow> string \<times> heap \<Rightarrow> bool"
where
  line_errors:
    "parse line = (program, errors) \<Longrightarrow> length errors \<noteq> 0 \<Longrightarrow>
     Start_line parse eval env line (out, h) (printParserErrors out errors, h)"
| line_nil:
    "parse line = (program, errors) \<Longrightarrow> length errors = 0 \<Longrightarrow>
     eval program env h = Some (None, h') \<Longrightarrow>
     Start_line parse eval env line (out, h) (out, h')"
| line_evaluated:
    "parse line = (program, errors) \<Longrightarrow> length errors = 0 \<Longrightarrow>
     eval program env h = Some (Some evaluated, h') \<Longrightarrow> Inspect evaluated s \<Longrightarrow>
     Start_line parse eval env line (out, h)
       (WriteString (WriteString out s) [CHR 0x0A], h')"

inductive Start_loop ::
  "parser \<Rightarrow> evaluator \<Rightarrow> ref \<Rightarrow> string list \<Rightarrow> string \<times> heap \<Rightarrow> string \<times> heap \<Rightarrow> bool"
where
  loop_eof:
    "Start_loop parse eval env [] (out, h) (WriteString out PROMPT, h)"
| loop_line:
    "Start_line parse eval env line (WriteString out PROMPT, h) st \<Longrightarrow>
     Start_loop parse eval env lines st final \<Longrightarrow>
     Start_loop parse eval env (line # lines) (out, h) final"

definition Start :: "parser \<Rightarrow> evaluator \<Rightarrow> string list \<Rightarrow> string \<Rightarrow> string \<times> heap \<Rightarrow> bool" where
  "Start parse eval lines out final =
     (let (h, env) = NewEnvironment [] in Start_loop parse eval env lines (out, h) final)"

section \<open>Notions of the specification\<close>

text \<open>
  The 64-bit FNV-1a hash as it is published: start from the offset basis; for every
  byte, exclusive-or it into the hash, then multiply by the FNV prime modulo \<open>2^64\<close>.
\<close>

definition fnv1a_64 :: "nat list \<Rightarrow> nat" where
  "fnv1a_64 data =
     fold (\<lambda>b hash. ((hash XOR b) * 1099511628211) mod 2 ^ 64) data 14695981039346656037"

text \<open>Two hashable objects of one variant with the same underlying value.\<close>

fun same_value :: "object \<Rightarrow> object \<Rightarrow> bool" where
  "same_value (Boolean a) (Boolean b) = (a = b)"
| "same_value (Integer a) (Integer b) = (sint a = sint b)"
| "same_value (String a) (String b) = (a = b)"
| "same_value _ _ = False"

text \<open>
  A text is the decimal form of an integer: a minus sign when it is negative, then the
  digits of its absolute value, most significant first, with no leading zero.
\<close>

definition digit_value :: "char \<Rightarrow> nat" where
  "digit_value c = of_char c - 48"

definition value_of_digits :: "string \<Rightarrow> nat" where
  "value_of_digits ds = foldl (\<lambda>a c. 10 * a + digit_value c) 0 ds"

definition canonical_decimal :: "string \<Rightarrow> int \<Rightarrow> bool" where
  "canonical_decimal s i =
     (let ds = (if i < 0 then tl s else s)
      in (i < 0 \<longrightarrow> take 1 s = ''-'') \<and> ds \<noteq> [] \<and>
         (\<forall>c \<in> set ds. c \<in> set ''0123456789'') \<and>
         (1 < length ds \<longrightarrow> hd ds \<noteq> CHR ''0'') \<and>
         int (value_of_digits ds) = \<bar>i\<bar>)"

text \<open>
  A node or an object in which every hash literal and every hash has at most one entry:
  no \<open>range\<close> that renders it has an order to choose.
\<close>

fun no_choice_Expression :: "Expression \<Rightarrow> bool"
  and no_choice_Statement :: "Statement \<Rightarrow> bool"
  and no_choice_BlockStatement :: "BlockStatement \<Rightarrow> bool"
where
  "no_choice_Expression (Expr_Identifier i) = True"
| "no_choice_Expression (IntegerLiteral t v) = True"
| "no_choice_Expression (PrefixExpression t operator right) = no_choice_Expression right"
| "no_choice_Expression (InfixExpression t left operator right) =
     (no_choice_Expression left \<and> no_choice_Expression right)"
| "no_choice_Expression (Boolean_ast t v) = True"
| "no_choice_Expression (IfExpression t condition consequence alternative) =
     (no_choice_Expression condition \<and> no_choice_BlockStatement consequence \<and>
      (case alternative of None \<Rightarrow> True | Some a \<Rightarrow> no_choice_BlockStatement a))"
| "no_choice_Expression (FunctionLiteral t parameters body) = no_choice_BlockStatement body"
| "no_choice_Expression (CallExpression t function arguments) =
     (no_choice_Expression function \<and> list_all no_choice_Expression arguments)"
| "no_choice_Expression (StringLiteral t v) = True"
| "no_choice_Expression (ArrayLiteral t elements) = list_all no_choice_Expression elements"
| "no_choice_Expression (IndexExpression t left index) =
     (no_choice_Expression left \<and> no_choice_Expression index)"
| "no_choice_Expression (HashLiteral t pairs) =
     (length pairs \<le> 1 \<and>
      list_all (\<lambda>kv. no_choice_Expression (fst kv) \<and> no_choice_Expression (snd kv)) pairs)"
| "no_choice_Statement (LetStatement t name v) =
     (case v of None \<Rightarrow> True | Some e \<Rightarrow> no_choice_Expression e)"
| "no_choice_Statement (ReturnStatement t v) =
     (case v of None \<Rightarrow> True | Some e \<Rightarrow> no_choice_Expression e)"
| "no_choice_Statement (ExpressionStatement t v) =
     (case v of None \<Rightarrow> True | Some e \<Rightarrow> no_choice_Expression e)"
| "no_choice_Statement (Stmt_Block b) = no_choice_BlockStatement b"
| "no_choice_BlockStatement (BlockStatement t statements) =
     list_all no_choice_Statement statements"

fun no_choice :: "object \<Rightarrow> bool"
  and no_choice_HashPair :: "HashPair \<Rightarrow> bool"
where
  "no_choice (Integer v) = True"
| "no_choice (Boolean v) = True"
| "no_choice Null = True"
| "no_choice (ReturnValue v) = no_choice v"
| "no_choice (Error m) = True"
| "no_choice (Function parameters body env) = no_choice_BlockStatement body"
| "no_choice (String v) = True"
| "no_choice (Builtin f) = True"
| "no_choice (Array elements) = list_all no_choice elements"
| "no_choice (Hash pairs) =
     (length pairs \<le> 1 \<and> list_all (\<lambda>kp. no_choice_HashPair (snd kp)) pairs)"
| "no_choice_HashPair (HashPair k v) = (no_choice k \<and> no_choice v)"

section \<open>Hash keys\<close>

lemma unat_ucast_byte: "unat (ucast (c :: byte) :: uint64) = unat c"
proof -
  have "unat c < 2 ^ 8" using unsigned_less [of c] by simp
  then have "unat c < 2 ^ 64" by simp
  then show ?thesis by (simp add: unsigned_ucast_eq take_bit_nat_eq_self_iff)
qed

lemma unat_fnv_step:
  "unat ((h XOR ucast (c :: byte)) * prime64) = ((unat h XOR unat c) * 1099511628211) mod 2 ^ 64"
proof -
  have "unat ((h XOR ucast c) * prime64) = (unat (h XOR ucast c) * 1099511628211) mod 2 ^ 64"
    by (simp add: unat_word_ariths prime64_def)
  also have "unat (h XOR ucast c) = unat h XOR unat c"
    by (simp only: unsigned_xor_eq unat_ucast_byte)
  finally show ?thesis .
qed

lemma unat_Write:
  "unat (Write h data) =
     fold (\<lambda>b hash. ((hash XOR b) * 1099511628211) mod 2 ^ 64) (map unat data) (unat h)"
proof (induction data arbitrary: h)
  case Nil
  show ?case by simp
next
  case (Cons c data)
  show ?case by (simp only: Write.simps Cons.IH unat_fnv_step list.map fold_simps)
qed

lemma unat_of_char_byte: "unat (of_char c :: byte) = of_char c"
  by (simp add: unat_of_nat take_bit_nat_eq_self_iff of_char_def)

lemma map_unat_bytes: "map unat (bytes s) = map of_char s"
  by (simp add: bytes_def unat_of_char_byte)

lemma unat_String_HashKey: "unat (key_Value (String_HashKey s)) = fnv1a_64 (map of_char s)"
  by (simp add: String_HashKey_def Sum64_def New64a_def offset64_def unat_Write
      map_unat_bytes fnv1a_64_def)

lemma uint_uint64_of_int64: "uint (uint64_of_int64 v) = sint v mod 2 ^ 64"
  by (simp add: uint64_of_int64_def uint_sint take_bit_eq_mod)

lemma same_value_HashKey:
  "same_value x y \<Longrightarrow> Type x = Type y \<and> Hashable_HashKey x = Hashable_HashKey y"
  by (induction x y rule: same_value.induct)
    (simp_all add: Integer_HashKey_def uint64_of_int64_def)

text \<open>
  C1. The hash key of a Boolean is \<open>(BOOLEAN, 1)\<close> for true and \<open>(BOOLEAN, 0)\<close> for false;
  that of an Integer is \<open>INTEGER\<close> with the 64 bits of its signed value read as unsigned;
  that of a String is \<open>STRING\<close> with the 64-bit FNV-1a hash of its bytes. Two hashable
  objects of the same type and the same underlying value have the same hash key.
\<close>

theorem HashKey_derivation:
  "Hashable_HashKey (Boolean b) =
     Some \<lparr>key_Type = ''BOOLEAN'', key_Value = (if b then 1 else 0)\<rparr> \<and>
   (\<exists>k. Hashable_HashKey (Integer i) = Some k \<and> key_Type k = ''INTEGER'' \<and>
        uint (key_Value k) = sint i mod 2 ^ 64 \<and> (\<forall>n. bit (key_Value k) n = bit i n)) \<and>
   (\<exists>k. Hashable_HashKey (String s) = Some k \<and> key_Type k = ''STRING'' \<and>
        unat (key_Value k) = fnv1a_64 (map of_char s)) \<and>
   (Hashable x \<and> Hashable y \<and> Type x = Type y \<and> same_value x y \<longrightarrow>
      Hashable_HashKey x = Hashable_HashKey y)"
proof (intro conjI)
  show "Hashable_HashKey (Boolean b) =
     Some \<lparr>key_Type = ''BOOLEAN'', key_Value = (if b then 1 else 0)\<rparr>"
    by (simp add: Boolean_HashKey_def BOOLEAN_OBJ_def)
  show "\<exists>k. Hashable_HashKey (Integer i) = Some k \<and> key_Type k = ''INTEGER'' \<and>
        uint (key_Value k) = sint i mod 2 ^ 64 \<and> (\<forall>n. bit (key_Value k) n = bit i n)"
    using uint_uint64_of_int64 [of i]
    by (simp add: Integer_HashKey_def INTEGER_OBJ_def) (simp add: uint64_of_int64_def)
  show "\<exists>k. Hashable_HashKey (String s) = Some k \<and> key_Type k = ''STRING'' \<and>
        unat (key_Value k) = fnv1a_64 (map of_char s)"
    using unat_String_HashKey [of s] by (simp add: String_HashKey_def STRING_OBJ_def)
  show "Hashable x \<and> Hashable y \<and> Type x = Type y \<and> same_value x y \<longrightarrow>
      Hashable_HashKey x = Hashable_HashKey y"
    using same_value_HashKey by blast
qed

theorem HashKey_derivation_witness:
  "Hashable_HashKey (Boolean True) = Some \<lparr>key_Type = ''BOOLEAN'', key_Value = 1\<rparr> \<and>
   Hashable_HashKey (Integer (- 1)) =
     Some \<lparr>key_Type = ''INTEGER'', key_Value = 18446744073709551615\<rparr> \<and>
   Hashable_HashKey (String ''a'') =
     Some \<lparr>key_Type = ''STRING'', key_Value = 12638187200555641996\<rparr> \<and>
   Hashable_HashKey (Integer 7) = Hashable_HashKey (Integer 7)"
  using HashKey_derivation [of True "- 1" "''a''" "Integer 7" "Integer 7"]
  by (simp add: Integer_HashKey_def INTEGER_OBJ_def uint64_of_int64_def String_HashKey_def
      STRING_OBJ_def New64a_def offset64_def prime64_def Sum64_def bytes_def)

lemma Type_distinct:
  "INTEGER_OBJ \<noteq> BOOLEAN_OBJ" "INTEGER_OBJ \<noteq> STRING_OBJ" "BOOLEAN_OBJ \<noteq> STRING_OBJ"
  by (simp_all add: INTEGER_OBJ_def BOOLEAN_OBJ_def STRING_OBJ_def)

lemma Hashable_HashKey_Type: "Hashable_HashKey a = Some k \<Longrightarrow> key_Type k = Type a"
  by (cases a) (auto simp: Boolean_HashKey_def Integer_HashKey_def String_HashKey_def Let_def)

text \<open>
  C9. A hash key carries the type tag of its object, so the hash keys of two hashable
  objects of different variants are unequal, also when their 64-bit values coincide, as
  for the Integer 1 and the Boolean true; an entry stored in a hash under the one is not
  the entry found under the other.
\<close>

theorem HashKey_types_apart:
  "Hashable_HashKey a = Some ka \<Longrightarrow> Hashable_HashKey b = Some kb \<Longrightarrow> Type a \<noteq> Type b \<Longrightarrow>
   key_Type ka = Type a \<and> key_Type kb = Type b \<and> ka \<noteq> kb \<and>
   map_of ((ka, pair) # pairs) kb = map_of pairs kb"
proof -
  assume a: "Hashable_HashKey a = Some ka" and b: "Hashable_HashKey b = Some kb"
    and ab: "Type a \<noteq> Type b"
  have ka: "key_Type ka = Type a" using a by (rule Hashable_HashKey_Type)
  have kb: "key_Type kb = Type b" using b by (rule Hashable_HashKey_Type)
  from ka kb ab have "ka \<noteq> kb" by auto
  with ka kb show ?thesis by simp
qed

theorem HashKey_types_apart_witness:
  "key_Value (Integer_HashKey 1) = key_Value (Boolean_HashKey True) \<and>
   Integer_HashKey 1 \<noteq> Boolean_HashKey True \<and>
   map_of [(Integer_HashKey 1, HashPair (Integer 1) (String ''one''))] (Boolean_HashKey True) = None"
  using HashKey_types_apart [of "Integer 1" "Integer_HashKey 1" "Boolean True"
      "Boolean_HashKey True" "HashPair (Integer 1) (String ''one'')" "[]"]
  by (simp add: Type_distinct Integer_HashKey_def Boolean_HashKey_def uint64_of_int64_def)

section \<open>Texts of syntax trees and objects\<close>

inductive_simps String_PrefixExpression_iff: "String_Expression (PrefixExpression t operator right) s"
inductive_simps String_InfixExpression_iff: "String_Expression (InfixExpression t left operator right) s"
inductive_simps String_IndexExpression_iff: "String_Expression (IndexExpression t left index) s"
inductive_simps Inspect_Integer_iff: "Inspect (Integer v) s"
inductive_simps Inspect_Boolean_iff: "Inspect (Boolean v) s"
inductive_simps Inspect_Null_iff: "Inspect Null s"
inductive_simps Inspect_ReturnValue_iff: "Inspect (ReturnValue v) s"
inductive_simps Inspect_Error_iff: "Inspect (Error m) s"
inductive_simps Inspect_Function_iff: "Inspect (Function parameters body env) s"
inductive_simps Inspect_String_iff: "Inspect (String v) s"
inductive_simps Inspect_Builtin_iff: "Inspect (Builtin f) s"
inductive_simps Inspect_Array_iff: "Inspect (Array elements) s"
inductive_simps Inspect_Hash_iff: "Inspect (Hash pairs) s"
inductive_simps Inspects_Nil_iff: "Inspects [] ss"
inductive_simps Inspects_Cons_iff: "Inspects (e # es) ss"
inductive_simps Inspects_pairs_Nil_iff: "Inspects_pairs [] ss"
inductive_simps Inspects_pairs_Cons_iff: "Inspects_pairs (kp # kps) ss"
inductive_simps String_Identifier_iff: "String_Expression (Expr_Identifier i) s"

lemma range_map_refl: "range_map xs xs"
  by (induction xs) (auto intro: range_map.intros pick.intros)

lemma Strings_exist:
  "(\<And>e. e \<in> set es \<Longrightarrow> \<exists>s. String_Expression e s) \<Longrightarrow> \<exists>ss. Strings es ss"
proof (induction es)
  case Nil
  show ?case by (blast intro: Strings_Nil)
next
  case (Cons e es)
  then obtain s ss where "String_Expression e s" "Strings es ss" by fastforce
  then show ?case by (blast intro: Strings_Cons)
qed

lemma Strings_pairs_exist:
  "(\<And>k v. (k, v) \<in> set kvs \<Longrightarrow> (\<exists>s. String_Expression k s) \<and> (\<exists>s. String_Expression v s))
   \<Longrightarrow> \<exists>ss. Strings_pairs kvs ss"
proof (induction kvs)
  case Nil
  show ?case by (blast intro: Strings_pairs_Nil)
next
  case (Cons kv kvs)
  obtain k v where kv: "kv = (k, v)" by (cases kv)
  from Cons kv obtain ks vs ss where
    "String_Expression k ks" "String_Expression v vs" "Strings_pairs kvs ss"
    by fastforce
  with kv show ?case by (blast intro: Strings_pairs_Cons)
qed

lemma String_stmts_exist:
  "(\<And>s. s \<in> set stmts \<Longrightarrow> \<exists>t. String_Statement s t) \<Longrightarrow> \<exists>out'. String_stmts out stmts out'"
proof (induction stmts arbitrary: out)
  case Nil
  show ?case by (blast intro: String_stmts_Nil)
next
  case (Cons s stmts)
  from Cons.prems obtain t where t: "String_Statement s t" by fastforce
  from Cons obtain out' where "String_stmts (WriteString out t) stmts out'" by fastforce
  with t show ?case by (blast intro: String_stmts_Cons)
qed

lemma String_total:
  shows "\<exists>s. String_Expression e s" and "\<exists>s. String_Statement st s"
    and "\<exists>s. String_BlockStatement b s"
proof (induction e and st and b)
  case (IfExpression t c cons alt)
  then show ?case
    by (cases alt) (auto intro: String_IfExpression String_IfExpression_else)
next
  case (CallExpression t f args)
  then obtain fs ss where "String_Expression f fs" "Strings args ss"
    using Strings_exist [of args] by blast
  then show ?case by (blast intro: String_CallExpression)
next
  case (ArrayLiteral t es)
  then obtain ss where "Strings es ss" using Strings_exist [of es] by blast
  then show ?case by (blast intro: String_ArrayLiteral)
next
  case (HashLiteral t kvs)
  then have "\<exists>ss. Strings_pairs kvs ss"
    by (intro Strings_pairs_exist) (force simp: fsts.simps snds.simps)
  then obtain ss where "Strings_pairs kvs ss" ..
  with range_map_refl [of kvs] show ?case by (blast intro: String_HashLiteral)
next
  case (LetStatement t n v)
  then show ?case
    by (cases v) (auto intro: String_LetStatement String_LetStatement_nil)
next
  case (ReturnStatement t v)
  then show ?case
    by (cases v) (auto intro: String_ReturnStatement String_ReturnStatement_nil)
next
  case (ExpressionStatement t v)
  then show ?case
    by (cases v) (auto intro: String_ExpressionStatement String_ExpressionStatement_nil)
next
  case (BlockStatement t stmts)
  then obtain out where "String_stmts [] stmts out"
    using String_stmts_exist [of stmts "[]"] by blast
  then show ?case by (blast intro: String_Block)
qed (blast intro: String_Expression_String_Statement_String_BlockStatement_Strings_Strings_pairs_String_stmts.intros)+


lemma Inspects_iff: "Inspects es ss \<longleftrightarrow> list_all2 Inspect es ss"
proof (induction es arbitrary: ss)
  case Nil
  show ?case by (simp add: Inspects_Nil_iff)
next
  case (Cons e es)
  show ?case by (auto simp: Inspects_Cons_iff Cons.IH list_all2_Cons1)
qed

lemma Inspects_exist:
  "(\<And>e. e \<in> set es \<Longrightarrow> \<exists>s. Inspect e s) \<Longrightarrow> \<exists>ss. Inspects es ss"
proof (induction es)
  case Nil
  show ?case by (blast intro: Inspects_Nil)
next
  case (Cons e es)
  then obtain s ss where "Inspect e s" "Inspects es ss" by fastforce
  then show ?case by (blast intro: Inspects_Cons)
qed

lemma Inspects_pairs_exist:
  "(\<And>k p. (k, p) \<in> set kps \<Longrightarrow> (\<exists>s. Inspect (Key p) s) \<and> (\<exists>s. Inspect (Value p) s))
   \<Longrightarrow> \<exists>ss. Inspects_pairs kps ss"
proof (induction kps)
  case Nil
  show ?case by (blast intro: Inspects_pairs_Nil)
next
  case (Cons kp kps)
  obtain k p where kp: "kp = (k, p)" by (cases kp)
  from Cons kp obtain ks vs ss where
    "Inspect (Key p) ks" "Inspect (Value p) vs" "Inspects_pairs kps ss"
    by fastforce
  with kp show ?case by (blast intro: Inspects_pairs_Cons)
qed

lemma Inspect_total:
  shows "\<exists>s. Inspect obj s"
    and "(\<exists>s. Inspect (Key pair) s) \<and> (\<exists>s. Inspect (Value pair) s)"
proof (induction obj and pair)
  case (Function ps body env)
  from String_total(3) [of body] show ?case by (blast intro: Inspect_Function)
next
  case (Array es)
  then obtain ss where "Inspects es ss" using Inspects_exist [of es] by blast
  then show ?case by (blast intro: Inspect_Array)
next
  case (Hash kps)
  then have "\<exists>ss. Inspects_pairs kps ss"
    by (intro Inspects_pairs_exist) (force simp: snds.simps)
  then obtain ss where "Inspects_pairs kps ss" ..
  with range_map_refl [of kps] show ?case by (blast intro: Inspect_Hash)
next
  case (HashPair k v)
  then show ?case by simp
qed (blast intro: Inspect_Inspects_Inspects_pairs.intros)+

lemma less_10_cases:
  "d < 10 \<Longrightarrow> d = 0 \<or> d = 1 \<or> d = 2 \<or> d = 3 \<or> d = 4 \<or> d = 5 \<or> d = 6 \<or> d = 7 \<or> d = 8 \<or> d = (9::nat)"
  by arith

lemma digit_props:
  assumes "d < 10"
  shows "digit_value (digit d) = d" and "digit d \<in> set ''0123456789''"
    and "(digit d = CHR ''0'') = (d = 0)"
  using less_10_cases [OF assms] by (auto simp: digit_def digit_value_def)

lemma value_of_digits_snoc:
  "value_of_digits (ds @ [c]) = 10 * value_of_digits ds + digit_value c"
  by (simp add: value_of_digits_def)

lemma decimal_nonempty: "decimal n \<noteq> []"
  by (subst decimal.simps) simp

lemma value_of_digits_decimal: "value_of_digits (decimal n) = n"
proof (induction n rule: decimal.induct)
  case (1 n)
  show ?case
  proof (cases "n < 10")
    case True
    then show ?thesis
      by (subst decimal.simps) (simp add: value_of_digits_def digit_props)
  next
    case False
    with 1 have "value_of_digits (decimal (n div 10)) = n div 10" by simp
    with False show ?thesis
      by (subst decimal.simps) (simp add: value_of_digits_snoc digit_props)
  qed
qed

lemma decimal_digits: "c \<in> set (decimal n) \<Longrightarrow> c \<in> set ''0123456789''"
proof (induction n rule: decimal.induct)
  case (1 n)
  show ?case
  proof (cases "n < 10")
    case True
    with 1(2) have "c = digit n" by (subst (asm) decimal.simps) simp
    with True show ?thesis using digit_props(2) by blast
  next
    case False
    with 1(2) have "c \<in> set (decimal (n div 10)) \<or> c = digit (n mod 10)"
      by (subst (asm) decimal.simps) auto
    then show ?thesis
    proof
      assume "c \<in> set (decimal (n div 10))"
      with 1(1) False show ?thesis by simp
    next
      assume "c = digit (n mod 10)"
      then show ?thesis using digit_props(2) [of "n mod 10"] by simp
    qed
  qed
qed

lemma decimal_hd: "0 < n \<Longrightarrow> hd (decimal n) \<noteq> CHR ''0''"
proof (induction n rule: decimal.induct)
  case (1 n)
  show ?case
  proof (cases "n < 10")
    case True
    with 1(2) show ?thesis
      by (subst decimal.simps) (simp add: digit_props)
  next
    case False
    then have "0 < n div 10" by simp
    with 1(1) False have "hd (decimal (n div 10)) \<noteq> CHR ''0''" by simp
    with False show ?thesis
      by (subst decimal.simps) (simp add: decimal_nonempty)
  qed
qed

lemma decimal_length: "1 < length (decimal n) \<Longrightarrow> 0 < n"
  by (subst (asm) decimal.simps) (auto split: if_splits)

lemma canonical_decimal_Sprintf_d: "canonical_decimal (Sprintf_d i) i"
proof (cases "i < 0")
  case True
  then show ?thesis
    using decimal_digits [of _ "nat (- i)"] decimal_hd [of "nat (- i)"]
      decimal_length [of "nat (- i)"]
    by (auto simp: canonical_decimal_def Sprintf_d_def decimal_nonempty value_of_digits_decimal)
next
  case False
  then show ?thesis
    using decimal_digits [of _ "nat i"] decimal_hd [of "nat i"] decimal_length [of "nat i"]
    by (auto simp: canonical_decimal_def Sprintf_d_def decimal_nonempty value_of_digits_decimal)
qed

lemma digit_char_props:
  assumes "c \<in> set ''0123456789''"
  shows "digit (digit_value c) = c" and "digit_value c < 10"
  using assms by (auto simp: digit_def digit_value_def)

lemma decimal_value_of_digits:
  "ds \<noteq> [] \<Longrightarrow> (\<forall>c \<in> set ds. c \<in> set ''0123456789'') \<Longrightarrow>
   (1 < length ds \<longrightarrow> hd ds \<noteq> CHR ''0'') \<Longrightarrow> decimal (value_of_digits ds) = ds"
proof (induction ds rule: rev_induct)
  case Nil
  then show ?case by simp
next
  case (snoc c xs)
  from snoc.prems(2) have c: "c \<in> set ''0123456789''" by simp
  show ?case
  proof (cases "xs = []")
    case True
    with c show ?thesis
      by (subst decimal.simps) (simp add: value_of_digits_def digit_char_props)
  next
    case False
    with snoc.prems have hd: "hd xs \<noteq> CHR ''0''" by simp
    from snoc.prems(2) have "\<forall>c \<in> set xs. c \<in> set ''0123456789''" by simp
    with snoc.IH False hd have xs: "decimal (value_of_digits xs) = xs" by blast
    have pos: "0 < value_of_digits xs"
    proof (rule ccontr)
      assume "\<not> 0 < value_of_digits xs"
      then have "value_of_digits xs = 0" by simp
      with xs have "xs = decimal 0" by simp
      then have "xs = ''0''" by (subst (asm) decimal.simps) (simp add: digit_def)
      with hd show False by simp
    qed
    let ?n = "10 * value_of_digits xs + digit_value c"
    from pos have "\<not> ?n < 10" by simp
    moreover have "?n div 10 = value_of_digits xs" "?n mod 10 = digit_value c"
      using digit_char_props(2) [OF c] by simp_all
    ultimately have "decimal ?n = decimal (value_of_digits xs) @ [digit (digit_value c)]"
      by (subst decimal.simps) simp
    with xs c show ?thesis
      by (simp add: value_of_digits_snoc digit_char_props)
  qed
qed

lemma canonical_decimal_unique: "canonical_decimal s i \<Longrightarrow> s = Sprintf_d i"
proof (cases "i < 0")
  case True
  assume c: "canonical_decimal s i"
  with True have m: "take 1 s = ''-''" and ne: "tl s \<noteq> []"
    and dg: "\<forall>c \<in> set (tl s). c \<in> set ''0123456789''"
    and hd: "1 < length (tl s) \<longrightarrow> hd (tl s) \<noteq> CHR ''0''"
    and v: "int (value_of_digits (tl s)) = \<bar>i\<bar>"
    by (simp_all add: canonical_decimal_def Let_def)
  from m have s: "s = CHR ''-'' # tl s" by (cases s) simp_all
  from v True have "value_of_digits (tl s) = nat (- i)" by simp
  with decimal_value_of_digits [OF ne dg hd] have "decimal (nat (- i)) = tl s" by simp
  with s True show ?thesis by (simp add: Sprintf_d_def)
next
  case False
  assume c: "canonical_decimal s i"
  with False have ne: "s \<noteq> []"
    and dg: "\<forall>c \<in> set s. c \<in> set ''0123456789''"
    and hd: "1 < length s \<longrightarrow> hd s \<noteq> CHR ''0''"
    and v: "int (value_of_digits s) = \<bar>i\<bar>"
    by (simp_all add: canonical_decimal_def Let_def)
  from v False have "value_of_digits s = nat i" by simp
  with decimal_value_of_digits [OF ne dg hd] have "decimal (nat i) = s" by simp
  with False show ?thesis by (simp add: Sprintf_d_def)
qed

lemma canonical_decimal_iff: "canonical_decimal s i \<longleftrightarrow> s = Sprintf_d i"
  using canonical_decimal_unique canonical_decimal_Sprintf_d by blast


text \<open>
  C5. \<open>Inspect\<close> returns the decimal form of the value of an Integer, \<open>true\<close> or \<open>false\<close>
  for a Boolean, \<open>null\<close> for Null, the text itself for a String, \<open>[\<close> then the texts of
  the elements joined by a comma and a space then \<open>]\<close> for an Array, and \<open>ERROR: \<close>
  followed by the message for an Error.
\<close>

theorem Inspect_canonical:
  "(Inspect (Integer i) s \<longleftrightarrow> canonical_decimal s (sint i)) \<and>
   (Inspect (Boolean b) s \<longleftrightarrow> s = (if b then ''true'' else ''false'')) \<and>
   (Inspect Null s \<longleftrightarrow> s = ''null'') \<and>
   (Inspect (String v) s \<longleftrightarrow> s = v) \<and>
   (Inspect (Array elements) s \<longleftrightarrow>
      (\<exists>els. list_all2 Inspect elements els \<and> s = ''['' @ Join els '', '' @ '']'')) \<and>
   (Inspect (Error message) s \<longleftrightarrow> s = ''ERROR: '' @ message)"
proof (intro conjI)
  show "Inspect (Integer i) s \<longleftrightarrow> canonical_decimal s (sint i)"
    by (simp add: Inspect_Integer_iff canonical_decimal_iff)
  show "Inspect (Boolean b) s \<longleftrightarrow> s = (if b then ''true'' else ''false'')"
    by (simp add: Inspect_Boolean_iff Sprintf_t_def)
  show "Inspect Null s \<longleftrightarrow> s = ''null''"
    by (rule Inspect_Null_iff)
  show "Inspect (String v) s \<longleftrightarrow> s = v"
    by (auto simp: Inspect_String_iff)
  show "Inspect (Array elements) s \<longleftrightarrow>
      (\<exists>els. list_all2 Inspect elements els \<and> s = ''['' @ Join els '', '' @ '']'')"
    by (auto simp: Inspect_Array_iff Inspects_iff WriteString_def)
  show "Inspect (Error message) s \<longleftrightarrow> s = ''ERROR: '' @ message"
    by (simp add: Inspect_Error_iff)
qed

theorem Inspect_canonical_witness:
  "Inspect (Integer (- 120)) ''-120'' \<and> \<not> Inspect (Integer (- 120)) ''-0120'' \<and>
   Inspect (Boolean True) ''true'' \<and> Inspect (Boolean False) ''false'' \<and>
   Inspect Null ''null'' \<and> Inspect (String ''a b'') ''a b'' \<and>
   Inspect (Array [Integer 1, String ''x'', Array []]) ''[1, x, []]'' \<and>
   Inspect (Error ''boom'') ''ERROR: boom''"
proof -
  have i: "sint (- 120 :: int64) = - 120" "sint (1 :: int64) = 1" by simp_all
  have d: "canonical_decimal ''-120'' (- 120)" "\<not> canonical_decimal ''-0120'' (- 120)"
    "canonical_decimal ''1'' 1"
    by (simp_all add: canonical_decimal_def value_of_digits_def digit_value_def)
  have e: "Inspect (Array []) ''[]''"
    using Inspect_canonical [where elements = "[]" and s = "''[]''"] by simp
  have "Inspect (Integer 1) ''1''" "Inspect (String ''x'') ''x''"
    using Inspect_canonical [where i = 1 and s = "''1''"]
      Inspect_canonical [where v = "''x''" and s = "''x''"]
    by (simp_all add: i d)
  with e have "list_all2 Inspect [Integer 1, String ''x'', Array []] [''1'', ''x'', ''[]'']"
    by simp
  then have "\<exists>els. list_all2 Inspect [Integer 1, String ''x'', Array []] els \<and>
      ''[1, x, []]'' = ''['' @ Join els '', '' @ '']''"
    by (intro exI [of _ "[''1'', ''x'', ''[]'']"]) simp
  then have a: "Inspect (Array [Integer 1, String ''x'', Array []]) ''[1, x, []]''"
    using Inspect_canonical [where elements = "[Integer 1, String ''x'', Array []]"
        and s = "''[1, x, []]''"]
    by blast
  show ?thesis
    using Inspect_canonical [where i = "- 120" and s = "''-120''" and b = True]
      Inspect_canonical [where i = "- 120" and s = "''-0120''"]
      Inspect_canonical [where b = False and s = "''false''"]
      Inspect_canonical [where s = "''true''" and b = True]
      Inspect_canonical [where s = "''null''"]
      Inspect_canonical [where s = "''a b''" and v = "''a b''"]
      Inspect_canonical [where s = "''ERROR: boom''" and message = "''boom''"] a
    by (simp add: i d)
qed

text \<open>
  C7, as amended. \<open>Inspect\<close> of a Function returns \<open>fn\<close>, an open parenthesis, the
  parameter names joined by a comma and a space, a close parenthesis, a space, an open
  brace, a newline, the text of the body, a newline and a close brace.
\<close>

theorem Inspect_Function_form:
  "Inspect (Function parameters body env) s \<longleftrightarrow>
     (\<exists>b. String_BlockStatement body b \<and>
          s = ''fn'' @ ''('' @ Join (map ident_Value parameters) '', '' @ '')'' @ '' '' @ ''{'' @
              [CHR 0x0A] @ b @ [CHR 0x0A] @ ''}'')"
proof -
  have "Identifier_String = ident_Value"
    by (rule ext) (simp add: Identifier_String_def)
  then show ?thesis
    by (auto simp: Inspect_Function_iff WriteString_def)
qed

inductive_simps String_Block_iff: "String_BlockStatement (BlockStatement t statements) s"
inductive_simps String_stmts_Nil_iff: "String_stmts out [] out'"
inductive_simps String_stmts_Cons_iff: "String_stmts out (st # sts) out'"
inductive_simps String_ExpressionStatement_iff: "String_Statement (ExpressionStatement t v) s"

lemma body_x:
  "String_BlockStatement
     (BlockStatement (Token ''{'' ''{'')
        [ExpressionStatement (Token ''IDENT'' ''x'')
           (Some (Expr_Identifier (Identifier (Token ''IDENT'' ''x'') ''x'')))]) b
   \<longleftrightarrow> b = ''x''"
  by (auto simp: String_Block_iff String_stmts_Cons_iff String_stmts_Nil_iff
      String_ExpressionStatement_iff String_Identifier_iff Identifier_String_def WriteString_def)

theorem Inspect_Function_form_witness:
  "Inspect
     (Function [Identifier (Token ''IDENT'' ''x'') ''x'', Identifier (Token ''IDENT'' ''y'') ''y'']
        (BlockStatement (Token ''{'' ''{'')
           [ExpressionStatement (Token ''IDENT'' ''x'')
              (Some (Expr_Identifier (Identifier (Token ''IDENT'' ''x'') ''x'')))])
        None)
     (''fn(x, y) {'' @ [CHR 0x0A] @ ''x'' @ [CHR 0x0A] @ ''}'')"
  using Inspect_Function_form [where parameters =
      "[Identifier (Token ''IDENT'' ''x'') ''x'', Identifier (Token ''IDENT'' ''y'') ''y'']"
      and body = "BlockStatement (Token ''{'' ''{'')
           [ExpressionStatement (Token ''IDENT'' ''x'')
              (Some (Expr_Identifier (Identifier (Token ''IDENT'' ''x'') ''x'')))]"
      and env = None
      and s = "''fn(x, y) {'' @ [CHR 0x0A] @ ''x'' @ [CHR 0x0A] @ ''}''"]
  by (simp add: body_x)

text \<open>
  C7 as stated, without the two newlines, fails for \<open>fn(x, y) { x }\<close>: the text the claim
  gives is not a text \<open>Inspect\<close> returns.
\<close>

theorem Inspect_Function_counterexample:
  "\<not> Inspect
     (Function [Identifier (Token ''IDENT'' ''x'') ''x'', Identifier (Token ''IDENT'' ''y'') ''y'']
        (BlockStatement (Token ''{'' ''{'')
           [ExpressionStatement (Token ''IDENT'' ''x'')
              (Some (Expr_Identifier (Identifier (Token ''IDENT'' ''x'') ''x'')))])
        None)
     (''fn'' @ ''('' @ Join [''x'', ''y''] '', '' @ '')'' @ '' '' @ ''{'' @ ''x'' @ ''}'')"
  by (simp add: Inspect_Function_iff WriteString_def body_x Identifier_String_def)

section \<open>Environments\<close>

lemma Get_chain: "env_chain h e es \<Longrightarrow> Get h e name = Some (innermost_binding h es name)"
proof (induction rule: env_chain.induct)
  case (chain_global e h)
  then show ?case
    by (subst Get.simps) (simp split: option.split)
next
  case (chain_enclosed e h out es)
  then show ?case
    by (subst Get.simps) (simp split: option.split)
qed

lemma innermost_binding_None:
  "innermost_binding h es name = None \<longleftrightarrow> (\<forall>a \<in> set es. store (h ! a) name = None)"
  by (induction es) (auto split: option.splits)

lemma innermost_binding_Some:
  "innermost_binding h es name = Some v \<longleftrightarrow>
     (\<exists>i < length es. store (h ! (es ! i)) name = Some v \<and>
        (\<forall>j < i. store (h ! (es ! j)) name = None))"
proof (induction es)
  case Nil
  show ?case by simp
next
  case (Cons a es)
  show ?case
  proof (cases "store (h ! a) name")
    case None
    have "(\<exists>i < length (a # es). store (h ! ((a # es) ! i)) name = Some v \<and>
             (\<forall>j < i. store (h ! ((a # es) ! j)) name = None)) \<longleftrightarrow>
          (\<exists>i < length es. store (h ! (es ! i)) name = Some v \<and>
             (\<forall>j < i. store (h ! (es ! j)) name = None))"
      (is "?L \<longleftrightarrow> ?R")
    proof
      assume ?L
      then obtain i where i: "i < length (a # es)"
        "store (h ! ((a # es) ! i)) name = Some v"
        "\<forall>j < i. store (h ! ((a # es) ! j)) name = None" by blast
      from i(2) None obtain k where k: "i = Suc k" by (cases i) auto
      with i have "k < length es" "store (h ! (es ! k)) name = Some v" by auto
      moreover have "\<forall>j < k. store (h ! (es ! j)) name = None"
      proof (intro allI impI)
        fix j assume "j < k"
        then have "Suc j < i" using k by simp
        with i(3) have "store (h ! ((a # es) ! Suc j)) name = None" by blast
        then show "store (h ! (es ! j)) name = None" by simp
      qed
      ultimately show ?R by blast
    next
      assume ?R
      then obtain k where k: "k < length es" "store (h ! (es ! k)) name = Some v"
        "\<forall>j < k. store (h ! (es ! j)) name = None" by blast
      have "\<forall>j < Suc k. store (h ! ((a # es) ! j)) name = None"
      proof (intro allI impI)
        fix j assume j: "j < Suc k"
        show "store (h ! ((a # es) ! j)) name = None"
        proof (cases j)
          case 0
          with None show ?thesis by simp
        next
          case (Suc m)
          with j k(3) show ?thesis by simp
        qed
      qed
      with k(1,2) show ?L by (intro exI [of _ "Suc k"]) simp
    qed
    with None Cons.IH show ?thesis by simp
  next
    case (Some w)
    have "(\<exists>i < length (a # es). store (h ! ((a # es) ! i)) name = Some v \<and>
             (\<forall>j < i. store (h ! ((a # es) ! j)) name = None)) \<longleftrightarrow> w = v"
      (is "?L \<longleftrightarrow> _")
    proof
      assume ?L
      then obtain i where i: "i < length (a # es)"
        "store (h ! ((a # es) ! i)) name = Some v"
        "\<forall>j < i. store (h ! ((a # es) ! j)) name = None" by blast
      have "i = 0"
      proof (rule ccontr)
        assume "i \<noteq> 0"
        then have "0 < i" by simp
        with i(3) have "store (h ! ((a # es) ! 0)) name = None" by blast
        with Some show False by simp
      qed
      with i(2) Some show "w = v" by simp
    next
      assume "w = v"
      with Some show ?L by (intro exI [of _ 0]) simp
    qed
    with Some show ?thesis by simp
  qed
qed

lemma env_chain_hd: "env_chain h e es \<Longrightarrow> \<exists>rest. es = e # rest"
  by (induction rule: env_chain.induct) auto

lemma env_chain_unique: "env_chain h e es \<Longrightarrow> env_chain h e es' \<Longrightarrow> es' = es"
proof (induction arbitrary: es' rule: env_chain.induct)
  case (chain_global e h)
  from chain_global(3) chain_global(1,2) show ?case
    by (cases rule: env_chain.cases) auto
next
  case (chain_enclosed e h out es)
  from chain_enclosed(5) chain_enclosed(1,2) chain_enclosed(4) show ?case
    by (cases rule: env_chain.cases) auto
qed

lemma env_chain_suffix:
  "env_chain h e es \<Longrightarrow> a \<in> set es \<Longrightarrow> \<exists>pre suf. es = pre @ a # suf \<and> env_chain h a (a # suf)"
proof (induction rule: env_chain.induct)
  case (chain_global e h)
  then have "a = e" by simp
  with chain_global show ?case
    by (intro exI [of _ "[]"]) (auto intro: env_chain.chain_global)
next
  case (chain_enclosed e h out es)
  show ?case
  proof (cases "a = e")
    case True
    with chain_enclosed(1-3) have "env_chain h a (a # es)"
      by (auto intro: env_chain.chain_enclosed)
    with True show ?thesis by (intro exI [of _ "[]"] exI [of _ es]) auto
  next
    case False
    with chain_enclosed(5) have "a \<in> set es" by simp
    with chain_enclosed(4) obtain pre suf where
      "es = pre @ a # suf" "env_chain h a (a # suf)" by blast
    then show ?thesis by (intro exI [of _ "e # pre"] exI [of _ suf]) auto
  qed
qed

lemma env_chain_acyclic: "env_chain h e (e # es) \<Longrightarrow> e \<notin> set es"
proof
  assume c: "env_chain h e (e # es)" and "e \<in> set es"
  then have "e \<in> set (tl (e # es))" by simp
  from c have "\<exists>out. outer (h ! e) = Some out \<and> env_chain h out es"
    using \<open>e \<in> set es\<close> by (cases rule: env_chain.cases) auto
  then obtain out where out: "env_chain h out es" by blast
  from env_chain_suffix [OF out \<open>e \<in> set es\<close>] obtain pre suf where
    ps: "es = pre @ e # suf" "env_chain h e (e # suf)" by blast
  from env_chain_unique [OF c ps(2)] have "e # suf = e # es" .
  with ps(1) show False by simp
qed


text \<open>
  C2. On the environment chain of \<open>e\<close>, innermost first, \<open>Get\<close> returns: with \<open>ok\<close> true
  the binding of the name in the first environment of the chain whose store has one,
  and \<open>ok\<close> false exactly when no environment of the chain binds the name.
\<close>

theorem Get_searches_chain:
  assumes "env_chain h e es"
  shows "\<exists>r. Get h e name = Some r \<and> hd es = e \<and>
     (\<forall>v. r = Some v \<longleftrightarrow>
        (\<exists>i < length es. store (h ! (es ! i)) name = Some v \<and>
           (\<forall>j < i. store (h ! (es ! j)) name = None))) \<and>
     (r = None \<longleftrightarrow> (\<forall>a \<in> set es. store (h ! a) name = None))"
proof -
  from assms have g: "Get h e name = Some (innermost_binding h es name)"
    by (rule Get_chain)
  from env_chain_hd [OF assms] have hd: "hd es = e" by auto
  show ?thesis
    using g hd innermost_binding_Some [of h es name] innermost_binding_None [of h es name]
    by simp
qed

lemma env_chain_exists:
  "outer_earlier h \<Longrightarrow> e < length h \<Longrightarrow> \<exists>es. env_chain h e es"
proof (induction e rule: less_induct)
  case (less e)
  show ?case
  proof (cases "outer (h ! e)")
    case None
    with less.prems show ?thesis by (blast intro: chain_global)
  next
    case (Some out)
    with less.prems have "out < e" by (auto simp: outer_earlier_def)
    with less obtain es where "env_chain h out es" by fastforce
    with Some less.prems show ?thesis by (blast intro: chain_enclosed)
  qed
qed

lemma NewEnvironment_eq:
  "NewEnvironment h = (h @ [\<lparr>store = Map.empty, outer = None\<rparr>], length h)"
  by (simp add: NewEnvironment_def)

lemma NewEnclosedEnvironment_eq:
  "NewEnclosedEnvironment h out = (h @ [\<lparr>store = Map.empty, outer = out\<rparr>], length h)"
  by (simp add: NewEnclosedEnvironment_def NewEnvironment_eq)

lemma outer_earlier_append:
  "outer_earlier h \<Longrightarrow> valid_ref h out \<Longrightarrow> outer_earlier (h @ [\<lparr>store = s, outer = out\<rparr>])"
  by (cases out) (auto simp: outer_earlier_def nth_append less_Suc_eq)

lemma outer_store_update:
  "a < length h \<Longrightarrow> outer (h[e := (h ! e)\<lparr>store := s\<rparr>] ! a) = outer (h ! a)"
  by (cases "a = e") simp_all

lemma outer_earlier_Set:
  "outer_earlier h \<Longrightarrow> outer_earlier (h[e := (h ! e)\<lparr>store := s\<rparr>])"
  by (simp add: outer_earlier_def outer_store_update)

lemma do_call_outer_earlier:
  "outer_earlier h \<Longrightarrow> do_call h c = Some h' \<Longrightarrow> outer_earlier h'"
proof (cases c)
  case (Call_Get e name)
  assume "outer_earlier h" "do_call h c = Some h'"
  with Call_Get show ?thesis by (auto split: option.splits)
next
  case (Call_Set e name val)
  assume "outer_earlier h" "do_call h c = Some h'"
  with Call_Set show ?thesis
    by (auto simp: Set_def outer_earlier_Set split: option.splits if_splits)
next
  case (Call_NewEnclosedEnvironment out)
  assume "outer_earlier h" "do_call h c = Some h'"
  with Call_NewEnclosedEnvironment show ?thesis
    by (auto simp: NewEnclosedEnvironment_eq outer_earlier_append split: if_splits)
next
  case Call_NewEnvironment
  assume "outer_earlier h" "do_call h c = Some h'"
  with Call_NewEnvironment show ?thesis
    using outer_earlier_append [of h None] by (auto simp: NewEnvironment_eq)
qed

lemma do_calls_outer_earlier:
  "outer_earlier h \<Longrightarrow> do_calls h cs = Some h' \<Longrightarrow> outer_earlier h'"
proof (induction cs arbitrary: h)
  case Nil
  then show ?case by simp
next
  case (Cons c cs)
  then show ?case by (auto split: option.splits dest: do_call_outer_earlier)
qed

lemma program_heap_chain:
  "do_calls [] cs = Some h \<Longrightarrow> e < length h \<Longrightarrow> \<exists>es. env_chain h e es"
proof -
  assume "do_calls [] cs = Some h" and e: "e < length h"
  moreover have "outer_earlier []" by (simp add: outer_earlier_def)
  ultimately have "outer_earlier h" using do_calls_outer_earlier by blast
  then show ?thesis using e by (rule env_chain_exists)
qed

lemma env_chain_same_outer:
  "env_chain h e es \<Longrightarrow> length h' = length h \<Longrightarrow>
   (\<And>a. a < length h \<Longrightarrow> outer (h' ! a) = outer (h ! a)) \<Longrightarrow> env_chain h' e es"
proof (induction rule: env_chain.induct)
  case (chain_global e h)
  then show ?case by (auto intro: env_chain.chain_global)
next
  case (chain_enclosed e h out es)
  then have "env_chain h' out es" by blast
  moreover from chain_enclosed have "e < length h'" "outer (h' ! e) = Some out" by auto
  ultimately show ?case by (auto intro: env_chain.chain_enclosed)
qed

lemma do_call_keeps:
  "do_call h c = Some h' \<Longrightarrow>
   length h \<le> length h' \<and> (\<forall>a < length h. dom (store (h ! a)) \<subseteq> dom (store (h' ! a)))"
proof (cases c)
  case (Call_Get e name)
  assume "do_call h c = Some h'"
  with Call_Get show ?thesis by (auto split: option.splits)
next
  case (Call_Set e name val)
  assume "do_call h c = Some h'"
  with Call_Set have "e < length h"
    and h': "h' = h[e := (h ! e)\<lparr>store := (store (h ! e))(name \<mapsto> val)\<rparr>]"
    by (auto simp: Set_def split: if_splits)
  then show ?thesis by (auto simp: nth_list_update)
next
  case (Call_NewEnclosedEnvironment out)
  assume "do_call h c = Some h'"
  with Call_NewEnclosedEnvironment show ?thesis
    by (auto simp: NewEnclosedEnvironment_eq nth_append split: if_splits)
next
  case Call_NewEnvironment
  assume "do_call h c = Some h'"
  with Call_NewEnvironment show ?thesis
    by (auto simp: NewEnvironment_eq nth_append)
qed

lemma do_calls_keeps:
  "do_calls h cs = Some h' \<Longrightarrow>
   length h \<le> length h' \<and> (\<forall>a < length h. dom (store (h ! a)) \<subseteq> dom (store (h' ! a)))"
proof (induction cs arbitrary: h)
  case Nil
  then show ?case by simp
next
  case (Cons c cs)
  from Cons.prems obtain h1 where h1: "do_call h c = Some h1" "do_calls h1 cs = Some h'"
    by (auto split: option.splits)
  from do_call_keeps [OF h1(1)] Cons.IH [OF h1(2)] show ?case
    by (meson dual_order.trans less_le_trans)
qed

lemma Get_bound: "e < length h \<Longrightarrow> store (h ! e) name = Some v \<Longrightarrow> Get h e name = Some (Some v)"
  by (subst Get.simps) simp

text \<open>
  C3. \<open>Set\<close> on an environment \<open>e\<close> returns the value and \<open>Get\<close> on \<open>e\<close> then yields it;
  the bindings of the other names in \<open>e\<close>, every other environment of the heap, and so
  every outer environment of \<open>e\<close>, are unchanged. After any sequence of calls of \<open>Get\<close>,
  \<open>Set\<close>, \<open>NewEnclosedEnvironment\<close> and \<open>NewEnvironment\<close>, every environment still binds
  every name it bound before.
\<close>

theorem Set_binds_current_scope:
  "(e < length h \<longrightarrow>
      (\<exists>h'. Set h e name val = Some (h', val) \<and> Get h' e name = Some (Some val) \<and>
         length h' = length h \<and> outer (h' ! e) = outer (h ! e) \<and>
         (\<forall>n. n \<noteq> name \<longrightarrow> store (h' ! e) n = store (h ! e) n) \<and>
         (\<forall>a < length h. a \<noteq> e \<longrightarrow> h' ! a = h ! a) \<and>
         (\<forall>es. env_chain h e (e # es) \<longrightarrow>
            env_chain h' e (e # es) \<and> (\<forall>a \<in> set es. h' ! a = h ! a)))) \<and>
   (do_calls h cs = Some h2 \<longrightarrow>
      length h \<le> length h2 \<and>
      (\<forall>a < length h. \<forall>n. store (h ! a) n \<noteq> None \<longrightarrow> store (h2 ! a) n \<noteq> None))"
proof (intro conjI impI)
  assume e: "e < length h"
  define h' where "h' = h[e := (h ! e)\<lparr>store := (store (h ! e))(name \<mapsto> val)\<rparr>]"
  have 1: "Set h e name val = Some (h', val)" using e by (simp add: Set_def h'_def)
  have 2: "Get h' e name = Some (Some val)"
    using e by (intro Get_bound) (simp_all add: h'_def)
  have 3: "length h' = length h" by (simp add: h'_def)
  have 4: "outer (h' ! a) = outer (h ! a)" if "a < length h" for a
    using that by (simp add: h'_def outer_store_update)
  have 5: "\<forall>n. n \<noteq> name \<longrightarrow> store (h' ! e) n = store (h ! e) n"
    using e by (simp add: h'_def)
  have 6: "\<forall>a < length h. a \<noteq> e \<longrightarrow> h' ! a = h ! a" by (simp add: h'_def)
  have 7: "\<forall>es. env_chain h e (e # es) \<longrightarrow>
            env_chain h' e (e # es) \<and> (\<forall>a \<in> set es. h' ! a = h ! a)"
  proof (intro allI impI conjI ballI)
    fix es assume c: "env_chain h e (e # es)"
    show "env_chain h' e (e # es)" using c 3 4 by (rule env_chain_same_outer)
    fix a assume a: "a \<in> set es"
    with env_chain_acyclic [OF c] have "a \<noteq> e" by auto
    then show "h' ! a = h ! a" by (simp add: h'_def)
  qed
  show "\<exists>h'. Set h e name val = Some (h', val) \<and> Get h' e name = Some (Some val) \<and>
         length h' = length h \<and> outer (h' ! e) = outer (h ! e) \<and>
         (\<forall>n. n \<noteq> name \<longrightarrow> store (h' ! e) n = store (h ! e) n) \<and>
         (\<forall>a < length h. a \<noteq> e \<longrightarrow> h' ! a = h ! a) \<and>
         (\<forall>es. env_chain h e (e # es) \<longrightarrow>
            env_chain h' e (e # es) \<and> (\<forall>a \<in> set es. h' ! a = h ! a))"
    using 1 2 3 4 [OF e] 5 6 7 by blast
next
  assume "do_calls h cs = Some h2"
  from do_calls_keeps [OF this] show "length h \<le> length h2" by simp
next
  assume "do_calls h cs = Some h2"
  from do_calls_keeps [OF this]
  show "\<forall>a < length h. \<forall>n. store (h ! a) n \<noteq> None \<longrightarrow> store (h2 ! a) n \<noteq> None"
    by (auto simp: subset_iff dom_def)
qed


theorem Get_searches_chain_witness:
  "env_chain
     [\<lparr>store = [''x'' \<mapsto> Integer 1, ''y'' \<mapsto> Integer 0], outer = None\<rparr>,
      \<lparr>store = [''y'' \<mapsto> Integer 2], outer = Some 0\<rparr>] 1 [1, 0] \<and>
   Get [\<lparr>store = [''x'' \<mapsto> Integer 1, ''y'' \<mapsto> Integer 0], outer = None\<rparr>,
        \<lparr>store = [''y'' \<mapsto> Integer 2], outer = Some 0\<rparr>] 1 ''x'' = Some (Some (Integer 1)) \<and>
   Get [\<lparr>store = [''x'' \<mapsto> Integer 1, ''y'' \<mapsto> Integer 0], outer = None\<rparr>,
        \<lparr>store = [''y'' \<mapsto> Integer 2], outer = Some 0\<rparr>] 1 ''y'' = Some (Some (Integer 2)) \<and>
   Get [\<lparr>store = [''x'' \<mapsto> Integer 1, ''y'' \<mapsto> Integer 0], outer = None\<rparr>,
        \<lparr>store = [''y'' \<mapsto> Integer 2], outer = Some 0\<rparr>] 1 ''z'' = Some None"
proof -
  let ?H = "[\<lparr>store = [''x'' \<mapsto> Integer 1, ''y'' \<mapsto> Integer 0], outer = None\<rparr>,
      \<lparr>store = [''y'' \<mapsto> Integer 2], outer = Some 0\<rparr>]"
  have c0: "env_chain ?H 0 [0]" by (rule chain_global) simp_all
  have c: "env_chain ?H 1 [1, 0]" by (rule chain_enclosed [OF _ _ c0]) simp_all
  have x: "Get ?H 1 ''x'' = Some (Some (Integer 1))"
  proof -
    from Get_searches_chain [OF c, of "''x''"] obtain r where
      r: "Get ?H 1 ''x'' = Some r" and
      s: "\<forall>v. r = Some v \<longleftrightarrow> (\<exists>i < length [1, 0 :: nat].
            store (?H ! ([1, 0] ! i)) ''x'' = Some v \<and>
            (\<forall>j < i. store (?H ! ([1, 0] ! j)) ''x'' = None))"
      by blast
    have "\<exists>i < length [1, 0 :: nat].
            store (?H ! ([1, 0] ! i)) ''x'' = Some (Integer 1) \<and>
            (\<forall>j < i. store (?H ! ([1, 0] ! j)) ''x'' = None)"
      by (intro exI [of _ 1]) simp
    with s have "r = Some (Integer 1)" by blast
    with r show ?thesis by simp
  qed
  have y: "Get ?H 1 ''y'' = Some (Some (Integer 2))"
  proof -
    from Get_searches_chain [OF c, of "''y''"] obtain r where
      r: "Get ?H 1 ''y'' = Some r" and
      s: "\<forall>v. r = Some v \<longleftrightarrow> (\<exists>i < length [1, 0 :: nat].
            store (?H ! ([1, 0] ! i)) ''y'' = Some v \<and>
            (\<forall>j < i. store (?H ! ([1, 0] ! j)) ''y'' = None))"
      by blast
    have "\<exists>i < length [1, 0 :: nat].
            store (?H ! ([1, 0] ! i)) ''y'' = Some (Integer 2) \<and>
            (\<forall>j < i. store (?H ! ([1, 0] ! j)) ''y'' = None)"
      by (intro exI [of _ 0]) simp
    with s have "r = Some (Integer 2)" by blast
    with r show ?thesis by simp
  qed
  have z: "Get ?H 1 ''z'' = Some None"
  proof -
    from Get_searches_chain [OF c, of "''z''"] obtain r where
      r: "Get ?H 1 ''z'' = Some r" and
      s: "r = None \<longleftrightarrow> (\<forall>a \<in> set [1, 0 :: nat]. store (?H ! a) ''z'' = None)"
      by blast
    from s have "r = None" by simp
    with r show ?thesis by simp
  qed
  from c x y z show ?thesis by blast
qed

theorem Set_binds_current_scope_witness:
  "Set [\<lparr>store = [''x'' \<mapsto> Integer 1], outer = None\<rparr>,
        \<lparr>store = Map.empty, outer = Some 0\<rparr>] 1 ''x'' (Integer 5) =
     Some ([\<lparr>store = [''x'' \<mapsto> Integer 1], outer = None\<rparr>,
            \<lparr>store = [''x'' \<mapsto> Integer 5], outer = Some 0\<rparr>], Integer 5) \<and>
   Get [\<lparr>store = [''x'' \<mapsto> Integer 1], outer = None\<rparr>,
        \<lparr>store = [''x'' \<mapsto> Integer 5], outer = Some 0\<rparr>] 1 ''x'' = Some (Some (Integer 5)) \<and>
   env_chain [\<lparr>store = [''x'' \<mapsto> Integer 1], outer = None\<rparr>,
        \<lparr>store = [''x'' \<mapsto> Integer 5], outer = Some 0\<rparr>] 1 [1, 0] \<and>
   do_calls [\<lparr>store = [''x'' \<mapsto> Integer 1], outer = None\<rparr>]
     [Call_NewEnclosedEnvironment (Some 0), Call_Set 1 ''x'' (Integer 5),
      Call_Set 0 ''x'' (Integer 7), Call_Get 1 ''x'']
   = Some [\<lparr>store = [''x'' \<mapsto> Integer 7], outer = None\<rparr>,
           \<lparr>store = [''x'' \<mapsto> Integer 5], outer = Some 0\<rparr>] \<and>
   store ([\<lparr>store = [''x'' \<mapsto> Integer 7], outer = None\<rparr>,
           \<lparr>store = [''x'' \<mapsto> Integer 5], outer = Some 0\<rparr>] ! 0) ''x'' \<noteq> None"
proof -
  let ?H = "[\<lparr>store = [''x'' \<mapsto> Integer 1], outer = None\<rparr>,
             \<lparr>store = Map.empty, outer = Some 0\<rparr>]"
  let ?G = "[\<lparr>store = [''x'' \<mapsto> Integer 1], outer = None\<rparr>]"
  let ?K = "[\<lparr>store = [''x'' \<mapsto> Integer 7], outer = None\<rparr>,
           \<lparr>store = [''x'' \<mapsto> Integer 5], outer = Some 0\<rparr>]"
  let ?cs = "[Call_NewEnclosedEnvironment (Some 0), Call_Set 1 ''x'' (Integer 5),
      Call_Set 0 ''x'' (Integer 7), Call_Get 1 ''x'']"
  have c0: "env_chain ?H 0 [0]" by (rule chain_global) simp_all
  have c: "env_chain ?H 1 (1 # [0])" by (rule chain_enclosed [OF _ _ c0]) simp_all
  have d: "do_calls ?G ?cs = Some ?K"
    by (simp add: NewEnclosedEnvironment_eq Set_def Get_bound)
  have e: "(1 :: nat) < length ?H" by simp
  note t1 = Set_binds_current_scope [where e = 1 and h = ?H and name = "''x''"
      and val = "Integer 5", THEN conjunct1, THEN mp, OF e]
  note t2 = Set_binds_current_scope [where h = ?G and cs = ?cs and ?h2.0 = ?K,
      THEN conjunct2, THEN mp, OF d]
  from t1 obtain h' where h': "Set ?H 1 ''x'' (Integer 5) = Some (h', Integer 5) \<and>
      Get h' 1 ''x'' = Some (Some (Integer 5)) \<and>
      length h' = length ?H \<and> outer (h' ! 1) = outer (?H ! 1) \<and>
      (\<forall>n. n \<noteq> ''x'' \<longrightarrow> store (h' ! 1) n = store (?H ! 1) n) \<and>
      (\<forall>a < length ?H. a \<noteq> 1 \<longrightarrow> h' ! a = ?H ! a) \<and>
      (\<forall>es. env_chain ?H 1 (1 # es) \<longrightarrow>
          env_chain h' 1 (1 # es) \<and> (\<forall>a \<in> set es. h' ! a = ?H ! a))" ..
  from h' have s: "Set ?H 1 ''x'' (Integer 5) = Some (h', Integer 5)" by (rule conjunct1)
  then have k: "h' = [\<lparr>store = [''x'' \<mapsto> Integer 1], outer = None\<rparr>,
            \<lparr>store = [''x'' \<mapsto> Integer 5], outer = Some 0\<rparr>]"
    by (simp add: Set_def)
  from h' have g: "Get h' 1 ''x'' = Some (Some (Integer 5))" by (elim conjE)
  from h' have "\<forall>es. env_chain ?H 1 (1 # es) \<longrightarrow>
          env_chain h' 1 (1 # es) \<and> (\<forall>a \<in> set es. h' ! a = ?H ! a)" by (elim conjE)
  with c have c': "env_chain h' 1 [1, 0]" by (elim allE [of _ "[0]"] impE conjE)
  from t2 have n: "store (?K ! 0) ''x'' \<noteq> None" by simp
  from s g c' show ?thesis unfolding k using d n by (intro conjI)
qed

section \<open>The read-eval-print loop\<close>

lemma printParserErrors_loop_eq:
  "printParserErrors_loop out errors =
     out @ concat (map (\<lambda>msg. [CHR 0x09] @ msg @ [CHR 0x0A]) errors)"
  by (induction errors arbitrary: out) (simp_all add: WriteString_def)

lemma printParserErrors_eq:
  "printParserErrors out errors =
     out @ ''Parser errors:'' @ [CHR 0x0A] @
     concat (map (\<lambda>msg. [CHR 0x09] @ msg @ [CHR 0x0A]) errors)"
  by (simp add: printParserErrors_def printParserErrors_loop_eq WriteString_def)

inductive_simps Start_loop_Nil_iff: "Start_loop parse eval env [] st final"
inductive_simps Start_loop_Cons_iff: "Start_loop parse eval env (line # lines) st final"

lemma Start_line_errors:
  assumes "parse line = (program, errors)" "errors \<noteq> []"
  shows "Start_line parse eval env line (out, h) st \<longleftrightarrow> st = (printParserErrors out errors, h)"
proof
  assume "Start_line parse eval env line (out, h) st"
  then show "st = (printParserErrors out errors, h)"
    using assms by (cases rule: Start_line.cases) auto
next
  assume "st = (printParserErrors out errors, h)"
  with assms show "Start_line parse eval env line (out, h) st"
    by (auto intro: line_errors)
qed

lemma Start_line_nil:
  assumes "parse line = (program, [])" "eval program env h = Some (None, h')"
  shows "Start_line parse eval env line (out, h) st \<longleftrightarrow> st = (out, h')"
proof
  assume "Start_line parse eval env line (out, h) st"
  then show "st = (out, h')"
    using assms by (cases rule: Start_line.cases) auto
next
  assume "st = (out, h')"
  with assms show "Start_line parse eval env line (out, h) st"
    by (auto intro: line_nil)
qed

lemma Start_line_evaluated:
  assumes "parse line = (program, [])" "eval program env h = Some (Some evaluated, h')"
  shows "Start_line parse eval env line (out, h) st \<longleftrightarrow>
    (\<exists>s. Inspect evaluated s \<and> st = (out @ s @ [CHR 0x0A], h'))"
proof
  assume "Start_line parse eval env line (out, h) st"
  then show "\<exists>s. Inspect evaluated s \<and> st = (out @ s @ [CHR 0x0A], h')"
    using assms by (cases rule: Start_line.cases) (auto simp: WriteString_def)
next
  assume "\<exists>s. Inspect evaluated s \<and> st = (out @ s @ [CHR 0x0A], h')"
  then obtain s where "Inspect evaluated s" "st = (out @ s @ [CHR 0x0A], h')" by blast
  with assms line_evaluated [of parse line program "[]" eval env h evaluated h' s out]
  show "Start_line parse eval env line (out, h) st"
    by (simp add: WriteString_def)
qed

lemma Start_eq:
  "Start parse eval lines out final \<longleftrightarrow>
     Start_loop parse eval 0 lines (out, [\<lparr>store = Map.empty, outer = None\<rparr>]) final"
  by (simp add: Start_def NewEnvironment_eq)

text \<open>
  C4. For a line whose parse gives diagnostics, the loop writes the header and every
  diagnostic after a tab on a line of its own, whatever the evaluator is, and leaves the
  heap of environments as it was. For a line without diagnostics it evaluates the
  program in the environment created at startup and writes a text of \<open>Inspect\<close> of the
  result and a newline, or nothing when the result is \<open>nil\<close>. The loop writes the prompt,
  runs this body on each line in turn, and stops after a last prompt; \<open>Start\<close> is this
  loop on the one environment it creates.
\<close>

theorem Start_line_cases:
  assumes "parse line = (program, errors)"
  shows "(errors \<noteq> [] \<longrightarrow>
            (\<forall>eval'. Start_line parse eval' env line (out, h) st \<longleftrightarrow>
               st = (out @ ''Parser errors:'' @ [CHR 0x0A] @
                       concat (map (\<lambda>msg. [CHR 0x09] @ msg @ [CHR 0x0A]) errors), h))) \<and>
         (errors = [] \<longrightarrow> eval program env h = Some (Some evaluated, h') \<longrightarrow>
            (Start_line parse eval env line (out, h) st \<longleftrightarrow>
               (\<exists>s. Inspect evaluated s \<and> st = (out @ s @ [CHR 0x0A], h')))) \<and>
         (errors = [] \<longrightarrow> eval program env h = Some (None, h') \<longrightarrow>
            (Start_line parse eval env line (out, h) st \<longleftrightarrow> st = (out, h'))) \<and>
         (Start_loop parse eval env (line # lines) (out, h) final \<longleftrightarrow>
            (\<exists>st'. Start_line parse eval env line (out @ ''>> '', h) st' \<and>
                   Start_loop parse eval env lines st' final)) \<and>
         (Start_loop parse eval env [] (out, h) final \<longleftrightarrow> final = (out @ ''>> '', h)) \<and>
         (Start parse eval lines out final \<longleftrightarrow>
            Start_loop parse eval 0 lines (out, [\<lparr>store = Map.empty, outer = None\<rparr>]) final)"
proof (intro conjI impI allI)
  fix eval'
  assume "errors \<noteq> []"
  with assms show "Start_line parse eval' env line (out, h) st \<longleftrightarrow>
      st = (out @ ''Parser errors:'' @ [CHR 0x0A] @
              concat (map (\<lambda>msg. [CHR 0x09] @ msg @ [CHR 0x0A]) errors), h)"
    using Start_line_errors [of parse line program errors eval' env out h st]
    by (simp add: printParserErrors_eq)
next
  assume "errors = []" "eval program env h = Some (Some evaluated, h')"
  with assms show "Start_line parse eval env line (out, h) st \<longleftrightarrow>
      (\<exists>s. Inspect evaluated s \<and> st = (out @ s @ [CHR 0x0A], h'))"
    by (intro Start_line_evaluated) simp_all
next
  assume "errors = []" "eval program env h = Some (None, h')"
  with assms show "Start_line parse eval env line (out, h) st \<longleftrightarrow> st = (out, h')"
    by (intro Start_line_nil) simp_all
next
  show "Start_loop parse eval env (line # lines) (out, h) final \<longleftrightarrow>
      (\<exists>st'. Start_line parse eval env line (out @ ''>> '', h) st' \<and>
             Start_loop parse eval env lines st' final)"
    by (auto simp: Start_loop_Cons_iff WriteString_def PROMPT_def)
next
  show "Start_loop parse eval env [] (out, h) final \<longleftrightarrow> final = (out @ ''>> '', h)"
    by (auto simp: Start_loop_Nil_iff WriteString_def PROMPT_def)
next
  show "Start parse eval lines out final \<longleftrightarrow>
      Start_loop parse eval 0 lines (out, [\<lparr>store = Map.empty, outer = None\<rparr>]) final"
    by (rule Start_eq)
qed


theorem Start_line_cases_witness:
  "Start_line (\<lambda>l. if l = ''5'' then (Program [], []) else (Program [], [''no prefix parse function for ) found'']))
     (\<lambda>p e h. if h = [] then None else Some (Some (Integer 5), h)) 0 '')''
     (''>> '', []) (''>> Parser errors:'' @ [CHR 0x0A, CHR 0x09] @
        ''no prefix parse function for ) found'' @ [CHR 0x0A], []) \<and>
   Start_line (\<lambda>l. if l = ''5'' then (Program [], []) else (Program [], [''no prefix parse function for ) found'']))
     (\<lambda>p e h. if h = [] then None else Some (Some (Integer 5), h)) 0 ''5''
     (''>> '', [\<lparr>store = Map.empty, outer = None\<rparr>])
     (''>> 5'' @ [CHR 0x0A], [\<lparr>store = Map.empty, outer = None\<rparr>])"
proof -
  let ?parse = "\<lambda>l. if l = ''5'' then (Program [], [])
    else (Program [], [''no prefix parse function for ) found''])"
  let ?eval = "\<lambda>(p :: Program) (e :: ref) (h :: heap).
    if h = [] then None else Some (Some (Integer 5), h)"
  let ?h = "[\<lparr>store = Map.empty, outer = None\<rparr>]"
  have p1: "?parse '')'' = (Program [], [''no prefix parse function for ) found''])" by simp
  have p2: "?parse ''5'' = (Program [], [])" by simp
  have i: "Inspect (Integer 5) ''5''"
    by (simp add: Inspect_Integer_iff Sprintf_d_def decimal.simps digit_def)
  have a: "Start_line ?parse ?eval 0 '')'' (''>> '', [])
     (''>> Parser errors:'' @ [CHR 0x0A, CHR 0x09] @
        ''no prefix parse function for ) found'' @ [CHR 0x0A], [])"
    using Start_line_cases [where parse = ?parse and line = "'')''"
        and program = "Program []" and errors = "[''no prefix parse function for ) found'']"
        and out = "''>> ''" and h = "[]" and env = 0
        and st = "(''>> Parser errors:'' @ [CHR 0x0A, CHR 0x09] @
        ''no prefix parse function for ) found'' @ [CHR 0x0A], [])"] p1
    by simp
  have b: "Start_line ?parse ?eval 0 ''5'' (''>> '', ?h) (''>> 5'' @ [CHR 0x0A], ?h)"
    using Start_line_cases [where parse = ?parse and line = "''5''"
        and program = "Program []" and errors = "[]"
        and out = "''>> ''" and h = ?h and env = 0
        and eval = ?eval and evaluated = "Integer 5" and h' = ?h
        and st = "(''>> 5'' @ [CHR 0x0A], ?h)"] p2 i
    by auto
  from a b show ?thesis by (rule conjI)
qed

text \<open>
  C10. \<open>Inspect\<close> of a ReturnValue returns exactly what \<open>Inspect\<close> of the wrapped object
  returns, so the loop writes the same for a ReturnValue that reaches it as for the
  wrapped object.
\<close>

theorem Inspect_ReturnValue_same:
  "(Inspect (ReturnValue v) s \<longleftrightarrow> Inspect v s) \<and>
   (parse line = (program, []) \<longrightarrow>
    eval program env h = Some (Some (ReturnValue v), h') \<longrightarrow>
    eval' program env h = Some (Some v, h') \<longrightarrow>
      (Start_line parse eval env line (out, h) st \<longleftrightarrow>
       Start_line parse eval' env line (out, h) st))"
proof (intro conjI impI)
  show "Inspect (ReturnValue v) s \<longleftrightarrow> Inspect v s"
    by (rule Inspect_ReturnValue_iff)
next
  assume p: "parse line = (program, [])"
    and e: "eval program env h = Some (Some (ReturnValue v), h')"
    and e': "eval' program env h = Some (Some v, h')"
  have "Start_line parse eval env line (out, h) st \<longleftrightarrow>
      (\<exists>s. Inspect (ReturnValue v) s \<and> st = (out @ s @ [CHR 0x0A], h'))"
    using p e by (rule Start_line_evaluated)
  also have "\<dots> \<longleftrightarrow> (\<exists>s. Inspect v s \<and> st = (out @ s @ [CHR 0x0A], h'))"
    by (simp only: Inspect_ReturnValue_iff)
  also have "\<dots> \<longleftrightarrow> Start_line parse eval' env line (out, h) st"
    using p e' by (rule Start_line_evaluated [symmetric])
  finally show "Start_line parse eval env line (out, h) st \<longleftrightarrow>
      Start_line parse eval' env line (out, h) st" .
qed

theorem Inspect_ReturnValue_same_witness:
  "Inspect (ReturnValue (Integer 5)) ''5'' \<and> \<not> Inspect (ReturnValue (Integer 5)) ''6'' \<and>
   Start_line (\<lambda>l. (Program [], [])) (\<lambda>p e h. Some (Some (ReturnValue (Integer 5)), h)) 0
     ''return 5;'' ([], []) (''5'' @ [CHR 0x0A], [])"
proof -
  let ?parse = "\<lambda>l :: string. (Program [], [] :: string list)"
  let ?eval = "\<lambda>(p :: Program) (e :: ref) (h :: heap). Some (Some (ReturnValue (Integer 5)), h)"
  let ?eval' = "\<lambda>(p :: Program) (e :: ref) (h :: heap). Some (Some (Integer 5), h)"
  have i: "Inspect (Integer 5) ''5''" "\<not> Inspect (Integer 5) ''6''"
    by (simp_all add: Inspect_Integer_iff Sprintf_d_def decimal.simps digit_def)
  have "Start_line ?parse ?eval' 0 ''return 5;'' ([], [])
      (WriteString (WriteString [] ''5'') [CHR 0x0A], [])"
    by (rule line_evaluated [where program = "Program []" and errors = "[]"
          and evaluated = "Integer 5" and s = "''5''"]) (simp_all add: i)
  then have l: "Start_line ?parse ?eval' 0 ''return 5;'' ([], []) (''5'' @ [CHR 0x0A], [])"
    by (simp add: WriteString_def)
  note t = Inspect_ReturnValue_same [where v = "Integer 5" and parse = ?parse
      and eval = ?eval and eval' = ?eval' and program = "Program []" and env = 0
      and h = "[]" and h' = "[]" and line = "''return 5;''" and out = "[]"]
  from t [where s = "''5''" and st = "(''5'' @ [CHR 0x0A], [])"]
    t [where s = "''6''" and st = "(''5'' @ [CHR 0x0A], [])"] i l
  show ?thesis by simp
qed

section \<open>Formatting under repetition\<close>

inductive_simps String_Boolean_iff: "String_Expression (Boolean_ast t v) s"
inductive_simps String_IntegerLiteral_iff: "String_Expression (IntegerLiteral t v) s"
inductive_simps String_StringLiteral_iff: "String_Expression (StringLiteral t v) s"
inductive_simps String_IfExpression_iff: "String_Expression (IfExpression t c cons None) s"
inductive_simps String_IfExpression_else_iff: "String_Expression (IfExpression t c cons (Some alt)) s"
inductive_simps String_FunctionLiteral_iff: "String_Expression (FunctionLiteral t ps body) s"
inductive_simps String_CallExpression_iff: "String_Expression (CallExpression t f args) s"
inductive_simps String_ArrayLiteral_iff: "String_Expression (ArrayLiteral t es) s"
inductive_simps String_HashLiteral_iff: "String_Expression (HashLiteral t kvs) s"
inductive_simps String_LetStatement_nil_iff: "String_Statement (LetStatement t n None) s"
inductive_simps String_LetStatement_iff: "String_Statement (LetStatement t n (Some v)) s"
inductive_simps String_ReturnStatement_nil_iff: "String_Statement (ReturnStatement t None) s"
inductive_simps String_ReturnStatement_iff: "String_Statement (ReturnStatement t (Some v)) s"
inductive_simps String_ExpressionStatement_nil_iff: "String_Statement (ExpressionStatement t None) s"
inductive_simps String_ExpressionStatement_Some_iff: "String_Statement (ExpressionStatement t (Some v)) s"
inductive_simps String_Stmt_Block_iff: "String_Statement (Stmt_Block b) s"
inductive_simps Strings_Nil_iff: "Strings [] ss"
inductive_simps Strings_Cons_iff: "Strings (e # es) ss"
inductive_simps Strings_pairs_Nil_iff: "Strings_pairs [] ss"
inductive_simps Strings_pairs_Cons_iff: "Strings_pairs ((k, v) # kvs) ss"
inductive_simps pick_Nil_iff: "pick [] x rest"
inductive_simps pick_Cons_iff: "pick (y # ys) x rest"
inductive_simps range_map_Nil_iff: "range_map [] ys"
inductive_simps range_map_Cons_iff: "range_map (x # xs) ys"

lemma range_map_short: "length xs \<le> 1 \<Longrightarrow> range_map xs ys \<longleftrightarrow> ys = xs"
proof (cases xs)
  case Nil
  then show ?thesis by (auto simp: range_map_Nil_iff pick_Nil_iff)
next
  case (Cons x xs')
  assume "length xs \<le> 1"
  with Cons have "xs' = []" by simp
  with Cons show ?thesis
    by (auto simp: range_map_Cons_iff pick_Cons_iff pick_Nil_iff range_map_Nil_iff)
qed


lemma String_deterministic:
  "String_Expression e s \<Longrightarrow> no_choice_Expression e \<Longrightarrow>
     (\<forall>s'. String_Expression e s' \<longrightarrow> s' = s)"
  "String_Statement st s \<Longrightarrow> no_choice_Statement st \<Longrightarrow>
     (\<forall>s'. String_Statement st s' \<longrightarrow> s' = s)"
  "String_BlockStatement b s \<Longrightarrow> no_choice_BlockStatement b \<Longrightarrow>
     (\<forall>s'. String_BlockStatement b s' \<longrightarrow> s' = s)"
  "Strings es ss \<Longrightarrow> list_all no_choice_Expression es \<Longrightarrow>
     (\<forall>ss'. Strings es ss' \<longrightarrow> ss' = ss)"
  "Strings_pairs kvs ss \<Longrightarrow>
     list_all (\<lambda>kv. no_choice_Expression (fst kv) \<and> no_choice_Expression (snd kv)) kvs \<Longrightarrow>
     (\<forall>ss'. Strings_pairs kvs ss' \<longrightarrow> ss' = ss)"
  "String_stmts out sts out' \<Longrightarrow> list_all no_choice_Statement sts \<Longrightarrow>
     (\<forall>o'. String_stmts out sts o' \<longrightarrow> o' = out')"
proof (induction rule:
    String_Expression_String_Statement_String_BlockStatement_Strings_Strings_pairs_String_stmts.inducts)
  case (String_Identifier i)
  show ?case unfolding String_Identifier_iff by blast
next
  case (String_IntegerLiteral t v)
  show ?case unfolding String_IntegerLiteral_iff by blast
next
  case (String_PrefixExpression right r t operator)
  from String_PrefixExpression.prems have nc: "no_choice_Expression right" by simp_all
  from String_PrefixExpression.IH nc have ih: "\<forall>s'. String_Expression right s' \<longrightarrow> s' = r"
    by blast+
  show ?case unfolding String_PrefixExpression_iff
    by (intro allI impI) ((elim exE conjE)?, (drule ih [rule_format])+, simp)
next
  case (String_InfixExpression left l right r t operator)
  from String_InfixExpression.prems have nc: "no_choice_Expression left" "no_choice_Expression right" by simp_all
  from String_InfixExpression.IH nc have ih: "\<forall>s'. String_Expression left s' \<longrightarrow> s' = l"
    "\<forall>s'. String_Expression right s' \<longrightarrow> s' = r"
    by blast+
  show ?case unfolding String_InfixExpression_iff
    by (intro allI impI) ((elim exE conjE)?, (drule ih [rule_format])+, simp)
next
  case (String_Boolean t v)
  show ?case unfolding String_Boolean_iff by blast
next
  case (String_IfExpression condition c consequence cs t)
  from String_IfExpression.prems have nc: "no_choice_Expression condition" "no_choice_BlockStatement consequence" by simp_all
  from String_IfExpression.IH nc have ih: "\<forall>s'. String_Expression condition s' \<longrightarrow> s' = c"
    "\<forall>s'. String_BlockStatement consequence s' \<longrightarrow> s' = cs"
    by blast+
  show ?case unfolding String_IfExpression_iff
    by (intro allI impI) ((elim exE conjE)?, (drule ih [rule_format])+, simp)
next
  case (String_IfExpression_else condition c consequence cs alternative al t)
  from String_IfExpression_else.prems have nc: "no_choice_Expression condition" "no_choice_BlockStatement consequence" "no_choice_BlockStatement alternative" by simp_all
  from String_IfExpression_else.IH nc have ih: "\<forall>s'. String_Expression condition s' \<longrightarrow> s' = c"
    "\<forall>s'. String_BlockStatement consequence s' \<longrightarrow> s' = cs"
    "\<forall>s'. String_BlockStatement alternative s' \<longrightarrow> s' = al"
    by blast+
  show ?case unfolding String_IfExpression_else_iff
    by (intro allI impI) ((elim exE conjE)?, (drule ih [rule_format])+, simp)
next
  case (String_FunctionLiteral body b t parameters)
  from String_FunctionLiteral.prems have nc: "no_choice_BlockStatement body" by simp_all
  from String_FunctionLiteral.IH nc have ih: "\<forall>s'. String_BlockStatement body s' \<longrightarrow> s' = b"
    by blast+
  show ?case unfolding String_FunctionLiteral_iff
    by (intro allI impI) ((elim exE conjE)?, (drule ih [rule_format])+, simp)
next
  case (String_CallExpression arguments args callee f t)
  from String_CallExpression.prems have nc: "list_all no_choice_Expression arguments" "no_choice_Expression callee" by simp_all
  from String_CallExpression.IH nc have ih: "\<forall>ss'. Strings arguments ss' \<longrightarrow> ss' = args"
    "\<forall>s'. String_Expression callee s' \<longrightarrow> s' = f"
    by blast+
  show ?case unfolding String_CallExpression_iff
    by (intro allI impI) ((elim exE conjE)?, (drule ih [rule_format])+, simp)
next
  case (String_StringLiteral t v)
  show ?case unfolding String_StringLiteral_iff by blast
next
  case (String_ArrayLiteral elements els t)
  from String_ArrayLiteral.prems have nc: "list_all no_choice_Expression elements" by simp_all
  from String_ArrayLiteral.IH nc have ih: "\<forall>ss'. Strings elements ss' \<longrightarrow> ss' = els"
    by blast+
  show ?case unfolding String_ArrayLiteral_iff
    by (intro allI impI) ((elim exE conjE)?, (drule ih [rule_format])+, simp)
next
  case (String_IndexExpression left l index i t)
  from String_IndexExpression.prems have nc: "no_choice_Expression left" "no_choice_Expression index" by simp_all
  from String_IndexExpression.IH nc have ih: "\<forall>s'. String_Expression left s' \<longrightarrow> s' = l"
    "\<forall>s'. String_Expression index s' \<longrightarrow> s' = i"
    by blast+
  show ?case unfolding String_IndexExpression_iff
    by (intro allI impI) ((elim exE conjE)?, (drule ih [rule_format])+, simp)
next
  case (String_HashLiteral pairs visited ps t)
  from String_HashLiteral.prems have short: "length pairs \<le> 1"
    and nc: "list_all (\<lambda>kv. no_choice_Expression (fst kv) \<and> no_choice_Expression (snd kv)) pairs"
    by simp_all
  from short String_HashLiteral.hyps(1) have v: "visited = pairs"
    by (simp add: range_map_short)
  from String_HashLiteral.IH nc have ih: "\<forall>ss'. Strings_pairs pairs ss' \<longrightarrow> ss' = ps"
    unfolding v by blast
  show ?case
  proof (intro allI impI)
    fix s' assume "String_Expression (HashLiteral t pairs) s'"
    then obtain visited' ps' where s': "s' =
        WriteString (WriteString (WriteString [] ''{'') (Join ps' '', '')) ''}''"
      and r: "range_map pairs visited'" and p: "Strings_pairs visited' ps'"
      unfolding String_HashLiteral_iff by (elim exE conjE)
    from r short have "visited' = pairs" by (simp add: range_map_short)
    with p ih have "ps' = ps" by blast
    with s' show "s' =
        WriteString (WriteString (WriteString [] ''{'') (Join ps '', '')) ''}''"
      by simp
  qed
next
  case (String_LetStatement_nil t name)
  show ?case unfolding String_LetStatement_nil_iff by blast
next
  case (String_LetStatement v vs t name)
  from String_LetStatement.prems have nc: "no_choice_Expression v" by simp_all
  from String_LetStatement.IH nc have ih: "\<forall>s'. String_Expression v s' \<longrightarrow> s' = vs"
    by blast+
  show ?case unfolding String_LetStatement_iff
    by (intro allI impI) ((elim exE conjE)?, (drule ih [rule_format])+, simp)
next
  case (String_ReturnStatement_nil t)
  show ?case unfolding String_ReturnStatement_nil_iff by blast
next
  case (String_ReturnStatement v vs t)
  from String_ReturnStatement.prems have nc: "no_choice_Expression v" by simp_all
  from String_ReturnStatement.IH nc have ih: "\<forall>s'. String_Expression v s' \<longrightarrow> s' = vs"
    by blast+
  show ?case unfolding String_ReturnStatement_iff
    by (intro allI impI) ((elim exE conjE)?, (drule ih [rule_format])+, simp)
next
  case (String_ExpressionStatement_nil t)
  show ?case unfolding String_ExpressionStatement_nil_iff by blast
next
  case (String_ExpressionStatement e es t)
  from String_ExpressionStatement.prems have nc: "no_choice_Expression e" by simp_all
  from String_ExpressionStatement.IH nc have ih: "\<forall>s'. String_Expression e s' \<longrightarrow> s' = es"
    by blast+
  show ?case unfolding String_ExpressionStatement_Some_iff
    by (intro allI impI) ((elim exE conjE)?, (drule ih [rule_format])+, simp)
next
  case (String_Stmt_Block b bs)
  from String_Stmt_Block.prems have nc: "no_choice_BlockStatement b" by simp_all
  from String_Stmt_Block.IH nc have ih: "\<forall>s'. String_BlockStatement b s' \<longrightarrow> s' = bs"
    by blast+
  show ?case unfolding String_Stmt_Block_iff
    by (intro allI impI) ((elim exE conjE)?, (drule ih [rule_format])+, simp)
next
  case (String_Block statements out t)
  from String_Block.prems have nc: "list_all no_choice_Statement statements" by simp_all
  from String_Block.IH nc have ih: "\<forall>o'. String_stmts [] statements o' \<longrightarrow> o' = out"
    by blast+
  show ?case unfolding String_Block_iff
    by (intro allI impI) ((elim exE conjE)?, (drule ih [rule_format])+, simp)
next
  case Strings_Nil
  show ?case unfolding Strings_Nil_iff by blast
next
  case (Strings_Cons e s es ss)
  from Strings_Cons.prems have nc: "no_choice_Expression e" "list_all no_choice_Expression es" by simp_all
  from Strings_Cons.IH nc have ih: "\<forall>s'. String_Expression e s' \<longrightarrow> s' = s"
    "\<forall>ss'. Strings es ss' \<longrightarrow> ss' = ss"
    by blast+
  show ?case unfolding Strings_Cons_iff
    by (intro allI impI) ((elim exE conjE)?, (drule ih [rule_format])+, simp)
next
  case Strings_pairs_Nil
  show ?case unfolding Strings_pairs_Nil_iff by blast
next
  case (Strings_pairs_Cons k ks v vs kvs ss)
  from Strings_pairs_Cons.prems have nc: "no_choice_Expression k" "no_choice_Expression v" "list_all (\<lambda>kv. no_choice_Expression (fst kv) \<and> no_choice_Expression (snd kv)) kvs" by simp_all
  from Strings_pairs_Cons.IH nc have ih: "\<forall>s'. String_Expression k s' \<longrightarrow> s' = ks"
    "\<forall>s'. String_Expression v s' \<longrightarrow> s' = vs"
    "\<forall>ss'. Strings_pairs kvs ss' \<longrightarrow> ss' = ss"
    by blast+
  show ?case unfolding Strings_pairs_Cons_iff
    by (intro allI impI) ((elim exE conjE)?, (drule ih [rule_format])+, simp)
next
  case (String_stmts_Nil out)
  show ?case unfolding String_stmts_Nil_iff by blast
next
  case (String_stmts_Cons s st out ss out')
  from String_stmts_Cons.prems have nc: "no_choice_Statement s" "list_all no_choice_Statement ss"
    by simp_all
  from String_stmts_Cons.IH nc have ih: "\<forall>s'. String_Statement s s' \<longrightarrow> s' = st"
    "\<forall>o'. String_stmts (WriteString out st) ss o' \<longrightarrow> o' = out'"
    by blast+
  show ?case
  proof (intro allI impI)
    fix o' assume "String_stmts out (s # ss) o'"
    then obtain st' where s': "String_Statement s st'"
      and o': "String_stmts (WriteString out st') ss o'"
      unfolding String_stmts_Cons_iff by (elim exE conjE)
    from s' ih(1) have "st' = st" by blast
    with o' ih(2) show "o' = out'" by blast
  qed
qed


inductive_simps Inspects_pairs_Cons_pair_iff: "Inspects_pairs ((k, pair) # kvs) ss"

lemma no_choice_HashPair_iff:
  "no_choice_HashPair pair \<longleftrightarrow> no_choice (Key pair) \<and> no_choice (Value pair)"
  by (cases pair) simp

lemma Inspect_deterministic:
  "Inspect obj s \<Longrightarrow> no_choice obj \<Longrightarrow> (\<forall>s'. Inspect obj s' \<longrightarrow> s' = s)"
  "Inspects es ss \<Longrightarrow> list_all no_choice es \<Longrightarrow> (\<forall>ss'. Inspects es ss' \<longrightarrow> ss' = ss)"
  "Inspects_pairs kps ss \<Longrightarrow> list_all (\<lambda>kp. no_choice_HashPair (snd kp)) kps \<Longrightarrow>
     (\<forall>ss'. Inspects_pairs kps ss' \<longrightarrow> ss' = ss)"
proof (induction rule: Inspect_Inspects_Inspects_pairs.inducts)
  case (Inspect_Integer v)
  show ?case unfolding Inspect_Integer_iff by blast
next
  case (Inspect_Boolean v)
  show ?case unfolding Inspect_Boolean_iff by blast
next
  case Inspect_Null
  show ?case unfolding Inspect_Null_iff by blast
next
  case (Inspect_ReturnValue v s)
  from Inspect_ReturnValue.prems have nc: "no_choice v" by simp
  from Inspect_ReturnValue.IH nc have ih: "\<forall>s'. Inspect v s' \<longrightarrow> s' = s" by blast
  show ?case unfolding Inspect_ReturnValue_iff by (rule ih)
next
  case (Inspect_Error message)
  show ?case by (simp add: Inspect_Error_iff)
next
  case (Inspect_Function body b parameters env)
  from Inspect_Function.prems have nc: "no_choice_BlockStatement body" by simp
  from String_deterministic(3) [OF Inspect_Function.hyps nc]
  have ih: "\<forall>s'. String_BlockStatement body s' \<longrightarrow> s' = b" .
  show ?case unfolding Inspect_Function_iff
    by (intro allI impI) ((elim exE conjE)?, (drule ih [rule_format])+, simp)
next
  case (Inspect_String v)
  show ?case unfolding Inspect_String_iff by blast
next
  case (Inspect_Builtin f)
  show ?case unfolding Inspect_Builtin_iff by blast
next
  case (Inspect_Array elements els)
  from Inspect_Array.prems have nc: "list_all no_choice elements" by simp
  from Inspect_Array.IH nc have ih: "\<forall>ss'. Inspects elements ss' \<longrightarrow> ss' = els" by blast
  show ?case unfolding Inspect_Array_iff
    by (intro allI impI) ((elim exE conjE)?, (drule ih [rule_format])+, simp)
next
  case (Inspect_Hash pairs visited ps)
  from Inspect_Hash.prems have short: "length pairs \<le> 1"
    and nc: "list_all (\<lambda>kp. no_choice_HashPair (snd kp)) pairs"
    by simp_all
  from short Inspect_Hash.hyps(1) have v: "visited = pairs"
    by (simp add: range_map_short)
  from Inspect_Hash.IH nc have ih: "\<forall>ss'. Inspects_pairs pairs ss' \<longrightarrow> ss' = ps"
    unfolding v by blast
  show ?case
  proof (intro allI impI)
    fix s' assume "Inspect (Hash pairs) s'"
    then obtain visited' ps' where s': "s' =
        WriteString (WriteString (WriteString [] ''{'') (Join ps' '', '')) ''}''"
      and r: "range_map pairs visited'" and p: "Inspects_pairs visited' ps'"
      unfolding Inspect_Hash_iff by (elim exE conjE)
    from r short have "visited' = pairs" by (simp add: range_map_short)
    with p ih have "ps' = ps" by blast
    with s' show "s' =
        WriteString (WriteString (WriteString [] ''{'') (Join ps '', '')) ''}''"
      by simp
  qed
next
  case Inspects_Nil
  show ?case unfolding Inspects_Nil_iff by blast
next
  case (Inspects_Cons e s es ss)
  from Inspects_Cons.prems have nc: "no_choice e" "list_all no_choice es" by simp_all
  from Inspects_Cons.IH nc have ih: "\<forall>s'. Inspect e s' \<longrightarrow> s' = s"
    "\<forall>ss'. Inspects es ss' \<longrightarrow> ss' = ss" by blast+
  show ?case unfolding Inspects_Cons_iff
    by (intro allI impI) ((elim exE conjE)?, (drule ih [rule_format])+, simp)
next
  case Inspects_pairs_Nil
  show ?case unfolding Inspects_pairs_Nil_iff by blast
next
  case (Inspects_pairs_Cons pair ks vs kvs ss k)
  from Inspects_pairs_Cons.prems have nc: "no_choice (Key pair)" "no_choice (Value pair)"
    "list_all (\<lambda>kp. no_choice_HashPair (snd kp)) kvs"
    by (simp_all add: no_choice_HashPair_iff)
  from Inspects_pairs_Cons.IH nc have ih: "\<forall>s'. Inspect (Key pair) s' \<longrightarrow> s' = ks"
    "\<forall>s'. Inspect (Value pair) s' \<longrightarrow> s' = vs"
    "\<forall>ss'. Inspects_pairs kvs ss' \<longrightarrow> ss' = ss" by blast+
  show ?case unfolding Inspects_pairs_Cons_pair_iff
    by (intro allI impI) ((elim exE conjE)?, (drule ih [rule_format])+, simp)
qed


text \<open>
  C8, as amended. An object in which every hash has at most one entry, and in whose
  function bodies every hash literal has at most one pair, has exactly one text that
  \<open>Inspect\<close> returns, so two invocations return the same string; likewise \<open>String\<close> for
  every expression, statement, block and program in which every hash literal has at
  most one pair.
\<close>

theorem formatting_deterministic:
  "(no_choice obj \<longrightarrow> (\<exists>!s. Inspect obj s)) \<and>
   (no_choice_Expression e \<longrightarrow> (\<exists>!s. String_Expression e s)) \<and>
   (no_choice_Statement st \<longrightarrow> (\<exists>!s. String_Statement st s)) \<and>
   (no_choice_BlockStatement b \<longrightarrow> (\<exists>!s. String_BlockStatement b s)) \<and>
   (list_all no_choice_Statement (Statements p) \<longrightarrow> (\<exists>!s. Program_String p s))"
proof (intro conjI impI)
  assume nc: "no_choice obj"
  from Inspect_total(1) obtain s where s: "Inspect obj s" by blast
  from Inspect_deterministic(1) [OF s nc] s show "\<exists>!s. Inspect obj s" by blast
next
  assume nc: "no_choice_Expression e"
  from String_total(1) obtain s where s: "String_Expression e s" by blast
  from String_deterministic(1) [OF s nc] s show "\<exists>!s. String_Expression e s" by blast
next
  assume nc: "no_choice_Statement st"
  from String_total(2) obtain s where s: "String_Statement st s" by blast
  from String_deterministic(2) [OF s nc] s show "\<exists>!s. String_Statement st s" by blast
next
  assume nc: "no_choice_BlockStatement b"
  from String_total(3) obtain s where s: "String_BlockStatement b s" by blast
  from String_deterministic(3) [OF s nc] s show "\<exists>!s. String_BlockStatement b s" by blast
next
  assume nc: "list_all no_choice_Statement (Statements p)"
  from String_stmts_exist [of "Statements p" "[]"] String_total(2)
  obtain s where s: "String_stmts [] (Statements p) s" by blast
  from String_deterministic(6) [OF s nc] s show "\<exists>!s. Program_String p s"
    unfolding Program_String_def by blast
qed

theorem formatting_deterministic_witness:
  "(\<exists>!s. Inspect (Array [Hash [(Integer_HashKey 1, HashPair (Integer 1) (String ''one''))],
        ReturnValue Null]) s) \<and>
   (\<exists>!s. String_Expression
      (HashLiteral (Token ''{'' ''{'')
        [(StringLiteral (Token ''STRING'' ''a'') ''a'', IntegerLiteral (Token ''INT'' ''1'') 1)]) s)"
  using formatting_deterministic [where obj =
      "Array [Hash [(Integer_HashKey 1, HashPair (Integer 1) (String ''one''))], ReturnValue Null]"
      and e = "HashLiteral (Token ''{'' ''{'')
        [(StringLiteral (Token ''STRING'' ''a'') ''a'', IntegerLiteral (Token ''INT'' ''1'') 1)]"]
  by simp

text \<open>
  C8 as stated fails for a hash and for a hash literal with two entries: \<open>range\<close> may
  visit them in either order, and the two texts differ.
\<close>

theorem formatting_deterministic_counterexample:
  "Inspect (Hash [(Integer_HashKey 1, HashPair (Integer 1) (Integer 2)),
                  (Integer_HashKey 3, HashPair (Integer 3) (Integer 4))]) ''{1: 2, 3: 4}'' \<and>
   Inspect (Hash [(Integer_HashKey 1, HashPair (Integer 1) (Integer 2)),
                  (Integer_HashKey 3, HashPair (Integer 3) (Integer 4))]) ''{3: 4, 1: 2}'' \<and>
   ''{1: 2, 3: 4}'' \<noteq> ''{3: 4, 1: 2}'' \<and>
   String_Expression
     (HashLiteral (Token ''{'' ''{'')
        [(StringLiteral (Token ''STRING'' ''a'') ''a'', IntegerLiteral (Token ''INT'' ''1'') 1),
         (StringLiteral (Token ''STRING'' ''b'') ''b'', IntegerLiteral (Token ''INT'' ''2'') 2)])
     ''{a:1, b:2}'' \<and>
   String_Expression
     (HashLiteral (Token ''{'' ''{'')
        [(StringLiteral (Token ''STRING'' ''a'') ''a'', IntegerLiteral (Token ''INT'' ''1'') 1),
         (StringLiteral (Token ''STRING'' ''b'') ''b'', IntegerLiteral (Token ''INT'' ''2'') 2)])
     ''{b:2, a:1}'' \<and>
   ''{a:1, b:2}'' \<noteq> ''{b:2, a:1}''"
proof -
  let ?p1 = "(Integer_HashKey 1, HashPair (Integer 1) (Integer 2))"
  let ?p2 = "(Integer_HashKey 3, HashPair (Integer 3) (Integer 4))"
  let ?q1 = "(StringLiteral (Token ''STRING'' ''a'') ''a'', IntegerLiteral (Token ''INT'' ''1'') 1)"
  let ?q2 = "(StringLiteral (Token ''STRING'' ''b'') ''b'', IntegerLiteral (Token ''INT'' ''2'') 2)"
  have d: "Sprintf_d 1 = ''1''" "Sprintf_d 2 = ''2''" "Sprintf_d 3 = ''3''" "Sprintf_d 4 = ''4''"
    by (simp_all add: Sprintf_d_def decimal.simps digit_def)
  have i: "sint (1 :: int64) = 1" "sint (2 :: int64) = 2" "sint (3 :: int64) = 3"
    "sint (4 :: int64) = 4" by simp_all
  have r12: "range_map [?p1, ?p2] [?p1, ?p2]" by (rule range_map_refl)
  have r21: "range_map [?p1, ?p2] [?p2, ?p1]"
    by (rule range_next [OF pick_later [OF pick_here] range_next [OF pick_here range_done]])
  have i12: "Inspects_pairs [?p1, ?p2] [''1: 2'', ''3: 4'']"
    by (simp add: Inspects_pairs_Cons_pair_iff Inspects_pairs_Nil_iff Inspect_Integer_iff
        Sprintf_s_s_def d i)
  have i21: "Inspects_pairs [?p2, ?p1] [''3: 4'', ''1: 2'']"
    by (simp add: Inspects_pairs_Cons_pair_iff Inspects_pairs_Nil_iff Inspect_Integer_iff
        Sprintf_s_s_def d i)
  have a: "Inspect (Hash [?p1, ?p2]) ''{1: 2, 3: 4}''"
    using Inspect_Hash [OF r12 i12] by (simp add: WriteString_def)
  have b: "Inspect (Hash [?p1, ?p2]) ''{3: 4, 1: 2}''"
    using Inspect_Hash [OF r21 i21] by (simp add: WriteString_def)
  have s12: "range_map [?q1, ?q2] [?q1, ?q2]" by (rule range_map_refl)
  have s21: "range_map [?q1, ?q2] [?q2, ?q1]"
    by (rule range_next [OF pick_later [OF pick_here] range_next [OF pick_here range_done]])
  have j12: "Strings_pairs [?q1, ?q2] [''a:1'', ''b:2'']"
    by (simp add: Strings_pairs_Cons_iff Strings_pairs_Nil_iff String_StringLiteral_iff
        String_IntegerLiteral_iff)
  have j21: "Strings_pairs [?q2, ?q1] [''b:2'', ''a:1'']"
    by (simp add: Strings_pairs_Cons_iff Strings_pairs_Nil_iff String_StringLiteral_iff
        String_IntegerLiteral_iff)
  have c: "String_Expression (HashLiteral (Token ''{'' ''{'') [?q1, ?q2]) ''{a:1, b:2}''"
    using String_HashLiteral [OF s12 j12, of "Token ''{'' ''{''"] by (simp add: WriteString_def)
  have e: "String_Expression (HashLiteral (Token ''{'' ''{'') [?q1, ?q2]) ''{b:2, a:1}''"
    using String_HashLiteral [OF s21 j21, of "Token ''{'' ''{''"] by (simp add: WriteString_def)
  from a b c e show ?thesis by simp
qed

section \<open>The text of every node variant\<close>

lemma pick_mset: "pick xs x rest \<Longrightarrow> mset xs = add_mset x (mset rest)"
  by (induction rule: pick.induct) simp_all

lemma pick_exists: "x \<in> set xs \<Longrightarrow> \<exists>rest. pick xs x rest"
proof (induction xs)
  case Nil
  then show ?case by simp
next
  case (Cons y xs)
  show ?case
  proof (cases "x = y")
    case True
    then show ?thesis by (blast intro: pick_here)
  next
    case False
    with Cons obtain rest where "pick xs x rest" by auto
    then show ?thesis by (blast intro: pick_later)
  qed
qed

lemma range_map_mset1: "range_map xs ys \<Longrightarrow> mset ys = mset xs"
proof (induction rule: range_map.induct)
  case range_done
  show ?case by simp
next
  case (range_next xs x rest ys)
  from pick_mset [OF range_next.hyps(1)] have "mset xs = add_mset x (mset rest)" .
  also from range_next.IH have "mset rest = mset ys" by (rule sym)
  finally show ?case by simp
qed


lemma range_map_mset2: "mset ys = mset xs \<Longrightarrow> range_map xs ys"
proof (induction ys arbitrary: xs)
  case Nil
  then have "xs = []" by simp
  then show ?case by (simp add: range_done)
next
  case (Cons y ys)
  from Cons.prems have "set (y # ys) = set xs" by (rule mset_eq_setD)
  then have "y \<in> set xs" by (metis list.set_intros(1))
  from pick_exists [OF this] obtain rest where p: "pick xs y rest" ..
  from pick_mset [OF p] have "mset xs = add_mset y (mset rest)" .
  with Cons.prems have "add_mset y (mset ys) = add_mset y (mset rest)" by (simp only: mset.simps)
  then have "mset ys = mset rest" by (simp only: add_mset_add_mset_same_iff)
  then have "range_map rest ys" by (rule Cons.IH)
  with p show ?case by (rule range_map.range_next)
qed

lemma range_map_mset: "range_map xs ys \<longleftrightarrow> mset ys = mset xs"
  using range_map_mset1 range_map_mset2 by (rule iffI)


inductive_simps String_CallExpression_callee_iff: "String_Expression (CallExpression t callee arguments) s"

lemma Strings_iff: "Strings es ss \<longleftrightarrow> list_all2 String_Expression es ss"
proof (induction es arbitrary: ss)
  case Nil
  show ?case by (simp add: Strings_Nil_iff)
next
  case (Cons e es)
  show ?case by (auto simp: Strings_Cons_iff Cons.IH list_all2_Cons1)
qed

lemma Strings_pairs_iff:
  "Strings_pairs kvs ss \<longleftrightarrow>
     list_all2 (\<lambda>kv p. \<exists>ks vs. String_Expression (fst kv) ks \<and>
        String_Expression (snd kv) vs \<and> p = ks @ '':'' @ vs) kvs ss"
proof (induction kvs arbitrary: ss)
  case Nil
  show ?case by (simp add: Strings_pairs_Nil_iff)
next
  case (Cons kv kvs)
  obtain k v where kv: "kv = (k, v)" by (cases kv)
  show ?case unfolding kv
    by (auto simp: Strings_pairs_Cons_iff Cons.IH list_all2_Cons1)
qed

lemma String_stmts_iff:
  "String_stmts out stmts out' \<longleftrightarrow>
     (\<exists>ss. list_all2 String_Statement stmts ss \<and> out' = out @ concat ss)"
proof (induction stmts arbitrary: out)
  case Nil
  show ?case by (auto simp: String_stmts_Nil_iff)
next
  case (Cons st stmts)
  show ?case
  proof
    assume "String_stmts out (st # stmts) out'"
    then obtain s where s: "String_Statement st s"
      and r: "String_stmts (WriteString out s) stmts out'"
      unfolding String_stmts_Cons_iff by (elim exE conjE)
    from r obtain ss where ss: "list_all2 String_Statement stmts ss"
      and o: "out' = WriteString out s @ concat ss"
      unfolding Cons.IH by (elim exE conjE)
    from s ss have "list_all2 String_Statement (st # stmts) (s # ss)" by simp
    moreover from o have "out' = out @ concat (s # ss)" by (simp add: WriteString_def)
    ultimately show "\<exists>ss. list_all2 String_Statement (st # stmts) ss \<and> out' = out @ concat ss"
      by (intro exI [of _ "s # ss"] conjI)
  next
    assume "\<exists>ss. list_all2 String_Statement (st # stmts) ss \<and> out' = out @ concat ss"
    then obtain ss where l: "list_all2 String_Statement (st # stmts) ss"
      and o: "out' = out @ concat ss" by (elim exE conjE)
    from l obtain s ss' where ss: "ss = s # ss'" and s: "String_Statement st s"
      and r: "list_all2 String_Statement stmts ss'"
      unfolding list_all2_Cons1 by (elim exE conjE)
    from o ss have "out' = WriteString out s @ concat ss'" by (simp add: WriteString_def)
    with r have "String_stmts (WriteString out s) stmts out'"
      unfolding Cons.IH by (intro exI [of _ ss'] conjI)
    with s show "String_stmts out (st # stmts) out'" by (rule String_stmts_Cons)
  qed
qed


lemma Identifier_String_eq: "Identifier_String = ident_Value"
  by (rule ext) (simp add: Identifier_String_def)

lemma String_IfExpression_text:
  "String_Expression (IfExpression t condition consequence None) s \<longleftrightarrow>
     (\<exists>c cs. String_Expression condition c \<and> String_BlockStatement consequence cs \<and>
        s = ''if'' @ c @ '' '' @ cs)"
  by (auto simp: String_IfExpression_iff WriteString_def)

lemma String_IfExpression_else_text:
  "String_Expression (IfExpression t condition consequence (Some alternative)) s \<longleftrightarrow>
     (\<exists>c cs al. String_Expression condition c \<and> String_BlockStatement consequence cs \<and>
        String_BlockStatement alternative al \<and> s = ''if'' @ c @ '' '' @ cs @ ''else'' @ al)"
  by (auto simp: String_IfExpression_else_iff WriteString_def)

lemma String_FunctionLiteral_text:
  "String_Expression (FunctionLiteral t parameters body) s \<longleftrightarrow>
     (\<exists>b. String_BlockStatement body b \<and>
        s = Literal t @ ''('' @ Join (map ident_Value parameters) '', '' @ '') '' @ b)"
  by (auto simp: String_FunctionLiteral_iff WriteString_def TokenLiteral_def
      Identifier_String_eq)

lemma String_CallExpression_text:
  "String_Expression (CallExpression t callee arguments) s \<longleftrightarrow>
     (\<exists>f args. String_Expression callee f \<and> list_all2 String_Expression arguments args \<and>
        s = f @ ''('' @ Join args '', '' @ '')'')"
  by (auto simp: String_CallExpression_callee_iff Strings_iff WriteString_def)

lemma String_ArrayLiteral_text:
  "String_Expression (ArrayLiteral t elements) s \<longleftrightarrow>
     (\<exists>els. list_all2 String_Expression elements els \<and> s = ''['' @ Join els '', '' @ '']'')"
  by (auto simp: String_ArrayLiteral_iff Strings_iff WriteString_def)

lemma String_HashLiteral_text:
  "String_Expression (HashLiteral t pairs) s \<longleftrightarrow>
     (\<exists>visited ps. mset visited = mset pairs \<and>
        list_all2 (\<lambda>kv p. \<exists>ks vs. String_Expression (fst kv) ks \<and>
           String_Expression (snd kv) vs \<and> p = ks @ '':'' @ vs) visited ps \<and>
        s = ''{'' @ Join ps '', '' @ ''}'')"
  by (auto simp: String_HashLiteral_iff range_map_mset Strings_pairs_iff WriteString_def)

lemma String_LetStatement_text:
  "(String_Statement (LetStatement t name None) s \<longleftrightarrow>
      s = Literal t @ '' '' @ ident_Value name @ '' = '' @ '';'') \<and>
   (String_Statement (LetStatement t name (Some v)) s \<longleftrightarrow>
      (\<exists>vs. String_Expression v vs \<and>
         s = Literal t @ '' '' @ ident_Value name @ '' = '' @ vs @ '';''))"
  by (auto simp: String_LetStatement_nil_iff String_LetStatement_iff WriteString_def
      TokenLiteral_def Identifier_String_def)

lemma String_ReturnStatement_text:
  "(String_Statement (ReturnStatement t None) s \<longleftrightarrow> s = Literal t @ '' '' @ '';'') \<and>
   (String_Statement (ReturnStatement t (Some v)) s \<longleftrightarrow>
      (\<exists>vs. String_Expression v vs \<and> s = Literal t @ '' '' @ vs @ '';''))"
  by (auto simp: String_ReturnStatement_nil_iff String_ReturnStatement_iff WriteString_def
      TokenLiteral_def)

lemma String_BlockStatement_text:
  "String_BlockStatement (BlockStatement t statements) s \<longleftrightarrow>
     (\<exists>ss. list_all2 String_Statement statements ss \<and> s = concat ss)"
  by (simp add: String_Block_iff String_stmts_iff)

lemma Program_String_text:
  "Program_String p s \<longleftrightarrow>
     (\<exists>ss. list_all2 String_Statement (Statements p) ss \<and> s = concat ss)"
  by (simp add: Program_String_def String_stmts_iff)


lemma String_InfixExpression_text:
  "String_Expression (InfixExpression t left operator right) s \<longleftrightarrow>
      (\<exists>l r. String_Expression left l \<and> String_Expression right r \<and>
             s = ''('' @ l @ '' '' @ operator @ '' '' @ r @ '')'')"
  by (auto simp: String_InfixExpression_iff WriteString_def)

lemma String_PrefixExpression_text:
  "String_Expression (PrefixExpression t operator right) s \<longleftrightarrow>
      (\<exists>r. String_Expression right r \<and> s = ''('' @ operator @ r @ '')'')"
  by (auto simp: String_PrefixExpression_iff WriteString_def)

lemma String_IndexExpression_text:
  "String_Expression (IndexExpression t left right) s \<longleftrightarrow>
      (\<exists>l i. String_Expression left l \<and> String_Expression right i \<and>
             s = ''('' @ l @ ''['' @ i @ ''])'')"
  by (auto simp: String_IndexExpression_iff WriteString_def)

lemma String_Identifier_text:
  "String_Expression (Expr_Identifier ident) s \<longleftrightarrow> s = ident_Value ident"
  by (simp add: String_Identifier_iff Identifier_String_def)

lemma String_ExpressionStatement_text:
  "String_Statement (ExpressionStatement t None) s \<longleftrightarrow> s = []"
  "String_Statement (ExpressionStatement t (Some v)) s \<longleftrightarrow> String_Expression v s"
  by (auto simp: String_ExpressionStatement_nil_iff String_ExpressionStatement_Some_iff)

text \<open>
  C6, as amended. The \<open>String\<close> method of every node variant returns a text made of
  its token literals and the texts of its children. The operator expressions are fully
  parenthesized: an infix expression is \<open>(\<close>, the text of the left operand, a space, the
  operator, a space, the text of the right operand and \<open>)\<close>; a prefix expression is
  \<open>(\<close>, the operator, the text of the operand and \<open>)\<close>; an index expression is \<open>(\<close>,
  the text of the left operand, \<open>[\<close>, the text of the index and \<open>])\<close>. The other
  variants get no parentheses of their own, and none of the braces, parentheses and
  separators of their syntax but those listed here: an identifier is its name; an
  integer, boolean or string literal is its token literal; an if expression is \<open>if\<close>,
  the text of the condition, a space and the text of the consequence, then \<open>else\<close> and
  the text of the alternative when there is one; a function literal is its token
  literal, \<open>(\<close>, the parameter names joined by a comma and a space, \<open>)\<close>, a space and the
  text of the body; a call is the text of the callee, \<open>(\<close>, the texts of the arguments
  joined by a comma and a space and \<open>)\<close>; an array literal is \<open>[\<close>, the texts of the
  elements joined likewise and \<open>]\<close>; a hash literal is \<open>{\<close>, for the pairs in some order
  the text of the key, a colon and the text of the value, joined likewise, and \<open>}\<close>; a
  let statement is its token literal, a space, the name, \<open> = \<close>, the text of the value
  when there is one and a semicolon; a return statement is its token literal, a space,
  the text of the value when there is one and a semicolon; an expression statement is
  the text of its expression, or empty; a block and a program are the texts of their
  statements one after the other.
\<close>

theorem String_parenthesized:
  "(String_Expression (InfixExpression t left operator right) s \<longleftrightarrow>
      (\<exists>l r. String_Expression left l \<and> String_Expression right r \<and>
             s = ''('' @ l @ '' '' @ operator @ '' '' @ r @ '')'')) \<and>
   (String_Expression (PrefixExpression t operator right) s \<longleftrightarrow>
      (\<exists>r. String_Expression right r \<and> s = ''('' @ operator @ r @ '')'')) \<and>
   (String_Expression (IndexExpression t left right) s \<longleftrightarrow>
      (\<exists>l i. String_Expression left l \<and> String_Expression right i \<and>
             s = ''('' @ l @ ''['' @ i @ ''])'')) \<and>
   (String_Expression (Expr_Identifier ident) s \<longleftrightarrow> s = ident_Value ident) \<and>
   (String_Expression (IntegerLiteral t iv) s \<longleftrightarrow> s = Literal t) \<and>
   (String_Expression (Boolean_ast t bv) s \<longleftrightarrow> s = Literal t) \<and>
   (String_Expression (StringLiteral t sv) s \<longleftrightarrow> s = Literal t) \<and>
   (String_Expression (IfExpression t condition consequence None) s \<longleftrightarrow>
      (\<exists>c cs. String_Expression condition c \<and> String_BlockStatement consequence cs \<and>
         s = ''if'' @ c @ '' '' @ cs)) \<and>
   (String_Expression (IfExpression t condition consequence (Some alternative)) s \<longleftrightarrow>
      (\<exists>c cs al. String_Expression condition c \<and> String_BlockStatement consequence cs \<and>
         String_BlockStatement alternative al \<and> s = ''if'' @ c @ '' '' @ cs @ ''else'' @ al)) \<and>
   (String_Expression (FunctionLiteral t parameters body) s \<longleftrightarrow>
      (\<exists>b. String_BlockStatement body b \<and>
         s = Literal t @ ''('' @ Join (map ident_Value parameters) '', '' @ '') '' @ b)) \<and>
   (String_Expression (CallExpression t callee arguments) s \<longleftrightarrow>
      (\<exists>f args. String_Expression callee f \<and> list_all2 String_Expression arguments args \<and>
         s = f @ ''('' @ Join args '', '' @ '')'')) \<and>
   (String_Expression (ArrayLiteral t elements) s \<longleftrightarrow>
      (\<exists>els. list_all2 String_Expression elements els \<and>
         s = ''['' @ Join els '', '' @ '']'')) \<and>
   (String_Expression (HashLiteral t pairs) s \<longleftrightarrow>
      (\<exists>visited ps. mset visited = mset pairs \<and>
         list_all2 (\<lambda>kv p. \<exists>ks vs. String_Expression (fst kv) ks \<and>
            String_Expression (snd kv) vs \<and> p = ks @ '':'' @ vs) visited ps \<and>
         s = ''{'' @ Join ps '', '' @ ''}'')) \<and>
   (String_Statement (LetStatement t name None) s \<longleftrightarrow>
      s = Literal t @ '' '' @ ident_Value name @ '' = '' @ '';'') \<and>
   (String_Statement (LetStatement t name (Some v)) s \<longleftrightarrow>
      (\<exists>vs. String_Expression v vs \<and>
         s = Literal t @ '' '' @ ident_Value name @ '' = '' @ vs @ '';'')) \<and>
   (String_Statement (ReturnStatement t None) s \<longleftrightarrow> s = Literal t @ '' '' @ '';'') \<and>
   (String_Statement (ReturnStatement t (Some v)) s \<longleftrightarrow>
      (\<exists>vs. String_Expression v vs \<and> s = Literal t @ '' '' @ vs @ '';'')) \<and>
   (String_Statement (ExpressionStatement t None) s \<longleftrightarrow> s = []) \<and>
   (String_Statement (ExpressionStatement t (Some v)) s \<longleftrightarrow> String_Expression v s) \<and>
   (String_Statement (Stmt_Block block) s \<longleftrightarrow> String_BlockStatement block s) \<and>
   (String_BlockStatement (BlockStatement t statements) s \<longleftrightarrow>
      (\<exists>ss. list_all2 String_Statement statements ss \<and> s = concat ss)) \<and>
   (Program_String p s \<longleftrightarrow>
      (\<exists>ss. list_all2 String_Statement (Statements p) ss \<and> s = concat ss)) \<and>
   (\<exists>x. String_Expression e x) \<and> (\<exists>x. String_Statement st x) \<and>
   (\<exists>x. String_BlockStatement b x)"
  by (intro conjI;
      rule String_InfixExpression_text String_PrefixExpression_text
        String_IndexExpression_text String_Identifier_text String_IntegerLiteral_iff
        String_Boolean_iff String_StringLiteral_iff String_IfExpression_text
        String_IfExpression_else_text String_FunctionLiteral_text
        String_CallExpression_text String_ArrayLiteral_text String_HashLiteral_text
        String_LetStatement_text [THEN conjunct1] String_LetStatement_text [THEN conjunct2]
        String_ReturnStatement_text [THEN conjunct1]
        String_ReturnStatement_text [THEN conjunct2] String_ExpressionStatement_text
        String_Stmt_Block_iff String_BlockStatement_text Program_String_text String_total)

theorem String_parenthesized_witness:
  "String_Expression
     (InfixExpression (Token ''*'' ''*'')
        (PrefixExpression (Token ''-'' ''-'') ''-''
           (Expr_Identifier (Identifier (Token ''IDENT'' ''a'') ''a'')))
        ''*''
        (Expr_Identifier (Identifier (Token ''IDENT'' ''b'') ''b'')))
     ''((-a) * b)'' \<and>
   String_Statement
     (LetStatement (Token ''LET'' ''let'') (Identifier (Token ''IDENT'' ''x'') ''x'')
        (Some (IndexExpression (Token ''['' ''['')
           (Expr_Identifier (Identifier (Token ''IDENT'' ''a'') ''a''))
           (IntegerLiteral (Token ''INT'' ''0'') 0))))
     ''let x = (a[0]);''"
proof -
  let ?a = "Expr_Identifier (Identifier (Token ''IDENT'' ''a'') ''a'')"
  let ?b = "Expr_Identifier (Identifier (Token ''IDENT'' ''b'') ''b'')"
  have a: "String_Expression ?a ''a''" and b: "String_Expression ?b ''b''"
    using String_parenthesized [where ident = "Identifier (Token ''IDENT'' ''a'') ''a''"
        and s = "''a''"]
      String_parenthesized [where ident = "Identifier (Token ''IDENT'' ''b'') ''b''"
        and s = "''b''"]
    by simp_all
  have z: "String_Expression (IntegerLiteral (Token ''INT'' ''0'') 0) ''0''"
    using String_parenthesized [where t = "Token ''INT'' ''0''" and iv = 0 and s = "''0''"]
    by simp
  have m: "String_Expression (PrefixExpression (Token ''-'' ''-'') ''-'' ?a) ''(-a)''"
    using String_parenthesized [where t = "Token ''-'' ''-''" and operator = "''-''"
        and right = ?a and s = "''(-a)''"] a
    by simp
  have i: "String_Expression
      (InfixExpression (Token ''*'' ''*'')
         (PrefixExpression (Token ''-'' ''-'') ''-'' ?a) ''*'' ?b) ''((-a) * b)''"
    using String_parenthesized [where t = "Token ''*'' ''*''"
        and left = "PrefixExpression (Token ''-'' ''-'') ''-'' ?a"
        and operator = "''*''" and right = ?b and s = "''((-a) * b)''"] m b
    by auto
  have x: "String_Expression
      (IndexExpression (Token ''['' ''['') ?a (IntegerLiteral (Token ''INT'' ''0'') 0))
      ''(a[0])''"
    using String_parenthesized [where t = "Token ''['' ''[''" and left = ?a
        and right = "IntegerLiteral (Token ''INT'' ''0'') 0" and s = "''(a[0])''"] a z
    by auto
  have l: "String_Statement
     (LetStatement (Token ''LET'' ''let'') (Identifier (Token ''IDENT'' ''x'') ''x'')
        (Some (IndexExpression (Token ''['' ''['') ?a
           (IntegerLiteral (Token ''INT'' ''0'') 0))))
     ''let x = (a[0]);''"
    using String_parenthesized [where t = "Token ''LET'' ''let''"
        and name = "Identifier (Token ''IDENT'' ''x'') ''x''"
        and v = "IndexExpression (Token ''['' ''['') ?a
           (IntegerLiteral (Token ''INT'' ''0'') 0)"
        and s = "''let x = (a[0]);''"] x
    by auto
  from i l show ?thesis by (rule conjI)
qed

lemma String_statement_identifier:
  "String_Statement
     (ExpressionStatement (Token ''IDENT'' n)
        (Some (Expr_Identifier (Identifier (Token ''IDENT'' n) n)))) s \<longleftrightarrow> s = n"
  by (simp add: String_ExpressionStatement_text String_Identifier_text)

lemma String_block_one:
  "String_BlockStatement
     (BlockStatement (Token ''{'' ''{'')
        [ExpressionStatement (Token ''IDENT'' n)
           (Some (Expr_Identifier (Identifier (Token ''IDENT'' n) n)))]) s \<longleftrightarrow> s = n"
  by (auto simp: String_BlockStatement_text list_all2_Cons1 String_statement_identifier)

lemma String_block_two:
  "String_BlockStatement
     (BlockStatement (Token ''{'' ''{'')
        [ExpressionStatement (Token ''IDENT'' n)
           (Some (Expr_Identifier (Identifier (Token ''IDENT'' n) n))),
         ExpressionStatement (Token ''IDENT'' m)
           (Some (Expr_Identifier (Identifier (Token ''IDENT'' m) m)))]) s \<longleftrightarrow> s = n @ m"
  by (auto simp: String_BlockStatement_text list_all2_Cons1 String_statement_identifier)

text \<open>
  C6 as stated fails for the variants that are not operator expressions: the node of
  \<open>if (a) { b } else { c }\<close> has the text \<open>ifa belsec\<close> and the node of \<open>fn(x) { x }\<close> the
  text \<open>fn(x) x\<close>, neither of them their syntax, and the two different blocks
  \<open>{ x; y }\<close> and \<open>{ xy }\<close> have the same text, so the syntax cannot be read back from it.
\<close>

theorem String_reconstruction_counterexample:
  "String_Expression
     (IfExpression (Token ''IF'' ''if'')
        (Expr_Identifier (Identifier (Token ''IDENT'' ''a'') ''a''))
        (BlockStatement (Token ''{'' ''{'')
           [ExpressionStatement (Token ''IDENT'' ''b'')
              (Some (Expr_Identifier (Identifier (Token ''IDENT'' ''b'') ''b'')))])
        (Some (BlockStatement (Token ''{'' ''{'')
           [ExpressionStatement (Token ''IDENT'' ''c'')
              (Some (Expr_Identifier (Identifier (Token ''IDENT'' ''c'') ''c'')))])))
     ''ifa belsec'' \<and>
   \<not> String_Expression
     (IfExpression (Token ''IF'' ''if'')
        (Expr_Identifier (Identifier (Token ''IDENT'' ''a'') ''a''))
        (BlockStatement (Token ''{'' ''{'')
           [ExpressionStatement (Token ''IDENT'' ''b'')
              (Some (Expr_Identifier (Identifier (Token ''IDENT'' ''b'') ''b'')))])
        (Some (BlockStatement (Token ''{'' ''{'')
           [ExpressionStatement (Token ''IDENT'' ''c'')
              (Some (Expr_Identifier (Identifier (Token ''IDENT'' ''c'') ''c'')))])))
     ''if (a) { b } else { c }'' \<and>
   String_Expression
     (FunctionLiteral (Token ''FUNCTION'' ''fn'') [Identifier (Token ''IDENT'' ''x'') ''x'']
        (BlockStatement (Token ''{'' ''{'')
           [ExpressionStatement (Token ''IDENT'' ''x'')
              (Some (Expr_Identifier (Identifier (Token ''IDENT'' ''x'') ''x'')))]))
     ''fn(x) x'' \<and>
   \<not> String_Expression
     (FunctionLiteral (Token ''FUNCTION'' ''fn'') [Identifier (Token ''IDENT'' ''x'') ''x'']
        (BlockStatement (Token ''{'' ''{'')
           [ExpressionStatement (Token ''IDENT'' ''x'')
              (Some (Expr_Identifier (Identifier (Token ''IDENT'' ''x'') ''x'')))]))
     ''fn(x) { x }'' \<and>
   String_BlockStatement
     (BlockStatement (Token ''{'' ''{'')
        [ExpressionStatement (Token ''IDENT'' ''x'')
           (Some (Expr_Identifier (Identifier (Token ''IDENT'' ''x'') ''x''))),
         ExpressionStatement (Token ''IDENT'' ''y'')
           (Some (Expr_Identifier (Identifier (Token ''IDENT'' ''y'') ''y'')))])
     ''xy'' \<and>
   String_BlockStatement
     (BlockStatement (Token ''{'' ''{'')
        [ExpressionStatement (Token ''IDENT'' ''xy'')
           (Some (Expr_Identifier (Identifier (Token ''IDENT'' ''xy'') ''xy'')))])
     ''xy'' \<and>
   BlockStatement (Token ''{'' ''{'')
     [ExpressionStatement (Token ''IDENT'' ''x'')
        (Some (Expr_Identifier (Identifier (Token ''IDENT'' ''x'') ''x''))),
      ExpressionStatement (Token ''IDENT'' ''y'')
        (Some (Expr_Identifier (Identifier (Token ''IDENT'' ''y'') ''y'')))] \<noteq>
   BlockStatement (Token ''{'' ''{'')
     [ExpressionStatement (Token ''IDENT'' ''xy'')
        (Some (Expr_Identifier (Identifier (Token ''IDENT'' ''xy'') ''xy'')))]"
  by (simp add: String_IfExpression_else_text String_FunctionLiteral_text
      String_Identifier_text String_block_one String_block_two)

end
